theory Spec2Isabelle
  imports Main
begin

section \<open>Errors, tokens and the collaborators of the keeper\<close>

text \<open>
  Go's \<^verbatim>\<open>error\<close> values. \<open>New s\<close> is \<^verbatim>\<open>errors.New(s)\<close>; \<open>Errorf w e\<close> is
  \<^verbatim>\<open>fmt.Errorf("%w: %s", w, e)\<close>, the only wrapping the keeper performs: it wraps \<open>w\<close>
  and only prints \<open>e\<close>, which may be nil. A nil error is \<open>None\<close> of \<open>error option\<close>.
  Go compares errors made by \<^verbatim>\<open>errors.New\<close> by identity; the model compares them by
  message, so it can only identify more errors than Go does.
\<close>

datatype error = New string | Errorf error "error option"

fun Error :: "error \<Rightarrow> string" where
  "Error (New s) = s"
| "Error (Errorf w e) =
     Error w @ '': '' @ (case e of None \<Rightarrow> ''%!s(<nil>)'' | Some x \<Rightarrow> Error x)"

text \<open>\<^verbatim>\<open>errors.Is\<close>: the error itself or something on its chain of wrapped errors.\<close>

fun Is :: "error \<Rightarrow> error \<Rightarrow> bool" where
  "Is (New s) target = (New s = target)"
| "Is (Errorf w e) target = (if Errorf w e = target then True else Is w target)"

definition ErrClientIsNil :: error where
  "ErrClientIsNil = New ''client is not set''"

definition ErrClientNewTokenFailed :: error where
  "ErrClientNewTokenFailed = New ''client.NewToken failed''"

definition ErrClientRefreshTokenFailed :: error where
  "ErrClientRefreshTokenFailed = New ''client.RefreshToken failed''"

text \<open>
  \<^verbatim>\<open>time.Time\<close> is an instant, counted in nanoseconds. The interface \<^verbatim>\<open>Token\<close> has four
  methods without arguments; a token is the record of what they return, and is taken to
  return the same each time it is asked. A nil interface value is \<open>None\<close> of
  \<open>Token option\<close>.
\<close>

type_synonym time = int

record Token =
  String :: string
  Created :: time
  Expires :: time
  Validate :: "error option"

text \<open>
  The collaborators are interfaces whose implementations live outside the keeper. Their
  state (the issuing authority, the shared storage, the clock) is a world \<open>'w\<close>; a call
  takes the world and returns Go's result pair together with the world it leaves. The
  context argument is never set by the keeper and is left out. A call is taken to return:
  a collaborator that blocks for ever or panics is not modelled.
\<close>

record 'w Client =
  NewToken :: "'w \<Rightarrow> (Token option \<times> error option) \<times> 'w"
  RefreshToken :: "Token option \<Rightarrow> 'w \<Rightarrow> (Token option \<times> error option) \<times> 'w"

record 'w Repo =
  GetToken :: "'w \<Rightarrow> (Token option \<times> error option) \<times> 'w"
  StoreToken :: "Token option \<Rightarrow> 'w \<Rightarrow> error option \<times> 'w"
  Lock :: "'w \<Rightarrow> error option \<times> 'w"
  Unlock :: "'w \<Rightarrow> error option \<times> 'w"

text \<open>
  The struct \<^verbatim>\<open>TokenKeeper\<close>. \<open>logger\<close> tells whether the logger field is set; the mutex
  \<^verbatim>\<open>lock\<close> is held for the whole body of \<^verbatim>\<open>Token()\<close>, so the model runs one body at a
  time.
\<close>

record 'w TokenKeeper =
  client :: "'w Client option"
  token :: "Token option"
  logger :: bool
  repo :: "'w Repo option"

text \<open>
  What a run leaves behind, in order: every call to a collaborator with what it returned,
  and every line handed to the logger.
\<close>

datatype event =
    Lock_call "error option"
  | Unlock_call "error option"
  | GetToken_call "Token option" "error option"
  | StoreToken_call "Token option" "error option"
  | NewToken_call "Token option" "error option"
  | RefreshToken_call "Token option" "Token option" "error option"
  | Log_error "error option" string
  | Log_warn "Token option" "error option"

record 'w st =
  keeper :: "'w TokenKeeper"
  world :: 'w
  calls :: "event list"

text \<open>A Go call returns, or panics (a method called on a nil interface value).\<close>

datatype 'a outcome = Return 'a | Panic

definition call_Lock :: "'w Repo \<Rightarrow> 'w st \<Rightarrow> error option \<times> 'w st" where
  "call_Lock r s =
     (case Lock r (world s) of (e, w) \<Rightarrow> (e, s\<lparr>world := w, calls := calls s @ [Lock_call e]\<rparr>))"

definition call_Unlock :: "'w Repo \<Rightarrow> 'w st \<Rightarrow> error option \<times> 'w st" where
  "call_Unlock r s =
     (case Unlock r (world s) of (e, w) \<Rightarrow> (e, s\<lparr>world := w, calls := calls s @ [Unlock_call e]\<rparr>))"

definition call_GetToken :: "'w Repo \<Rightarrow> 'w st \<Rightarrow> (Token option \<times> error option) \<times> 'w st" where
  "call_GetToken r s =
     (case GetToken r (world s) of
        ((t, e), w) \<Rightarrow> ((t, e), s\<lparr>world := w, calls := calls s @ [GetToken_call t e]\<rparr>))"

definition call_StoreToken :: "'w Repo \<Rightarrow> Token option \<Rightarrow> 'w st \<Rightarrow> error option \<times> 'w st" where
  "call_StoreToken r t s =
     (case StoreToken r t (world s) of
        (e, w) \<Rightarrow> (e, s\<lparr>world := w, calls := calls s @ [StoreToken_call t e]\<rparr>))"

definition call_NewToken :: "'w Client \<Rightarrow> 'w st \<Rightarrow> (Token option \<times> error option) \<times> 'w st" where
  "call_NewToken c s =
     (case NewToken c (world s) of
        ((t, e), w) \<Rightarrow> ((t, e), s\<lparr>world := w, calls := calls s @ [NewToken_call t e]\<rparr>))"

definition call_RefreshToken ::
  "'w Client \<Rightarrow> Token option \<Rightarrow> 'w st \<Rightarrow> (Token option \<times> error option) \<times> 'w st" where
  "call_RefreshToken c old s =
     (case RefreshToken c old (world s) of
        ((t, e), w) \<Rightarrow> ((t, e), s\<lparr>world := w, calls := calls s @ [RefreshToken_call old t e]\<rparr>))"

section \<open>The keeper\<close>

definition NewTokenKeeper :: "'w Client option \<Rightarrow> 'w TokenKeeper" where
  "NewTokenKeeper c = \<lparr>client = c, token = None, logger = True, repo = None\<rparr>"

definition WithRepo :: "'w Repo option \<Rightarrow> 'w TokenKeeper \<Rightarrow> 'w TokenKeeper" where
  "WithRepo r k = k\<lparr>repo := r\<rparr>"

text \<open>\<^verbatim>\<open>newInvalidToken(err)\<close>; \<open>now\<close> is what \<^verbatim>\<open>time.Now()\<close> returns.\<close>

definition newInvalidToken :: "time \<Rightarrow> error option \<Rightarrow> Token" where
  "newInvalidToken now err = \<lparr>String = [], Created = now, Expires = now, Validate = err\<rparr>"

text \<open>\<^verbatim>\<open>validateToken\<close>: nil when the token is to be trusted, the reason otherwise.\<close>

definition validateToken :: "time \<Rightarrow> Token option \<Rightarrow> error option" where
  "validateToken now t =
     (case t of
        None \<Rightarrow> Some (New ''no token set'')
      | Some tk \<Rightarrow>
          (case Validate tk of
             Some err \<Rightarrow> Some err
           | None \<Rightarrow> if Expires tk < now then Some (New ''token is expired'') else None))"

definition logError :: "error option \<Rightarrow> string \<Rightarrow> 'w st \<Rightarrow> 'w st" where
  "logError err msg s =
     (if logger (keeper s) then s\<lparr>calls := calls s @ [Log_error err msg]\<rparr> else s)"

definition set_token :: "Token option \<Rightarrow> 'w st \<Rightarrow> 'w st" where
  "set_token t s = s\<lparr>keeper := (keeper s)\<lparr>token := t\<rparr>\<rparr>"

definition storeToken :: "Token option \<Rightarrow> 'w st \<Rightarrow> 'w st" where
  "storeToken t s =
     set_token t
       (case repo (keeper s) of
          None \<Rightarrow> s
        | Some r \<Rightarrow>
            (case call_StoreToken r t s of
               (err, s1) \<Rightarrow>
                 if err \<noteq> None then logError err ''failed to store token in repo'' s1 else s1))"

text \<open>The deferred \<^verbatim>\<open>Unlock\<close> runs last, whatever the body returned.\<close>

definition tokenFromRepo :: "'w st \<Rightarrow> Token option \<times> 'w st" where
  "tokenFromRepo s =
     (case repo (keeper s) of
        None \<Rightarrow> (None, s)
      | Some r \<Rightarrow>
          (case call_Lock r s of
             (_, s1) \<Rightarrow>
               (case call_GetToken r s1 of
                  ((t, err), s2) \<Rightarrow>
                    (if err \<noteq> None then None else t, snd (call_Unlock r s2)))))"

text \<open>
  \<^verbatim>\<open>t.Validate()\<close> on the token the client returned panics when the client returned
  a nil token and a nil error.
\<close>

definition tokenFromClient :: "'w st \<Rightarrow> (Token option \<times> error option) outcome \<times> 'w st" where
  "tokenFromClient s =
     (case client (keeper s) of
        None \<Rightarrow> (Return (None, Some ErrClientIsNil), s)
      | Some c \<Rightarrow>
          (case call_NewToken c s of
             ((t, err), s1) \<Rightarrow>
               if err \<noteq> None then (Return (None, err), s1)
               else (case t of
                       None \<Rightarrow> (Panic, s1)
                     | Some tk \<Rightarrow>
                         if Validate tk = None then (Return (t, None), storeToken t s1)
                         else (Return (t, None), s1))))"

text \<open>
  \<^verbatim>\<open>getToken\<close>. The body under the distributed lock is \<open>getToken_locked\<close>; the deferred
  \<^verbatim>\<open>Unlock\<close> runs after it, also when it panicked.
\<close>

definition getToken_locked ::
  "'w Repo \<Rightarrow> 'w st \<Rightarrow> (Token option \<times> error option) outcome \<times> 'w st" where
  "getToken_locked r s =
     (if token (keeper s) \<noteq> None then (Return (token (keeper s), None), s)
      else (case call_GetToken r s of
              ((t, err), s1) \<Rightarrow>
                if err = None then (Return (t, None), s1) else tokenFromClient s1))"

definition getToken :: "'w st \<Rightarrow> (Token option \<times> error option) outcome \<times> 'w st" where
  "getToken s =
     (case tokenFromRepo s of
        (Some t, s1) \<Rightarrow> (Return (Some t, None), s1)
      | (None, s1) \<Rightarrow>
          (case repo (keeper s1) of
             None \<Rightarrow> tokenFromClient s1
           | Some r \<Rightarrow>
               (case call_Lock r s1 of
                  (_, s2) \<Rightarrow>
                    (case getToken_locked r s2 of
                       (res, s3) \<Rightarrow> (res, snd (call_Unlock r s3))))))"

text \<open>
  \<^verbatim>\<open>Token()\<close>, in its two blocks. \<open>Token_issue\<close> is the block run when nothing is cached:
  it leaves \<open>Inl\<close> what \<^verbatim>\<open>Token()\<close> returns at once, or \<open>Inr\<close> the state to go on with.
  \<open>Token_refresh\<close> is the block that validates the cached token and replaces it.
  \<open>clock\<close> reads \<^verbatim>\<open>time.Now()\<close> off the world.
\<close>

definition Token_issue :: "('w \<Rightarrow> time) \<Rightarrow> 'w st \<Rightarrow> (Token option outcome \<times> 'w st) + 'w st" where
  "Token_issue clock s =
     (if token (keeper s) = None then
        (case getToken s of
           (Panic, s1) \<Rightarrow> Inl (Panic, s1)
         | (Return (t, err), s1) \<Rightarrow>
             (case t of
                None \<Rightarrow>
                  (let s2 = logError err (Error ErrClientNewTokenFailed) s1
                   in Inl (Return (Some (newInvalidToken (clock (world s2))
                                     (Some (Errorf ErrClientNewTokenFailed err)))), s2))
              | Some tk \<Rightarrow> Inr (set_token t s1)))
      else Inr s)"

definition Token_refresh :: "('w \<Rightarrow> time) \<Rightarrow> 'w st \<Rightarrow> Token option outcome \<times> 'w st" where
  "Token_refresh clock s =
     (case validateToken (clock (world s)) (token (keeper s)) of
        None \<Rightarrow> (Return (token (keeper s)), s)
      | Some verr \<Rightarrow>
          if \<not> logger (keeper s) then (Panic, s)
          else
            (let s1 = s\<lparr>calls := calls s @ [Log_warn (token (keeper s)) (Some verr)]\<rparr>
             in case client (keeper s1) of
                  None \<Rightarrow> (Panic, s1)
                | Some c \<Rightarrow>
                    (case call_RefreshToken c (token (keeper s1)) s1 of
                       ((tok, err), s2) \<Rightarrow>
                         if err \<noteq> None then
                           (let s3 = logError err (Error ErrClientRefreshTokenFailed) s2
                            in (Return (Some (newInvalidToken (clock (world s3))
                                          (Some (Errorf ErrClientRefreshTokenFailed err)))), s3))
                         else (let s3 = storeToken tok s2
                               in (Return (token (keeper s3)), s3)))))"

definition Token :: "('w \<Rightarrow> time) \<Rightarrow> 'w st \<Rightarrow> Token option outcome \<times> 'w st" where
  "Token clock s =
     (case Token_issue clock s of
        Inl res \<Rightarrow> res
      | Inr s1 \<Rightarrow> Token_refresh clock s1)"

section \<open>Callers of one keeper, and keepers that share a Repo\<close>







section \<open>The Postgres repository\<close>

text \<open>
  \<^verbatim>\<open>NewPgRepo\<close> draws the key of the advisory lock with \<^verbatim>\<open>rand.Intn(100)\<close>; the
  second argument is the number drawn. The pool is opaque. \<^verbatim>\<open>Lock\<close> and \<^verbatim>\<open>Unlock\<close>
  hand one statement with one argument to \<^verbatim>\<open>pool.Exec\<close>.
\<close>

record 'p PgRepo =
  pool :: 'p
  table :: string
  lockNumber :: int

datatype statement = Exec string "int list"

definition DefaultTable :: string where
  "DefaultTable = ''token''"

definition NewPgRepo :: "'p option \<Rightarrow> int \<Rightarrow> error + 'p PgRepo" where
  "NewPgRepo p drawn =
     (case p of
        None \<Rightarrow> Inl (New ''pool is nil'')
      | Some pl \<Rightarrow> Inr \<lparr>pool = pl, table = DefaultTable, lockNumber = drawn\<rparr>)"

definition PgRepo_Lock :: "'p PgRepo \<Rightarrow> statement" where
  "PgRepo_Lock r = Exec ''SELECT pg_advisory_lock($1);'' [lockNumber r]"

definition PgRepo_Unlock :: "'p PgRepo \<Rightarrow> statement" where
  "PgRepo_Unlock r = Exec ''SELECT pg_advisory_unlock($1);'' [lockNumber r]"

section \<open>Reading the calls of a run\<close>

text \<open>The calls a run added: what \<open>s'\<close> has recorded beyond \<open>s\<close>.\<close>

definition new_calls :: "'w st \<Rightarrow> 'w st \<Rightarrow> event list" where
  "new_calls s s' = drop (length (calls s)) (calls s')"

definition issue_state :: "(Token option outcome \<times> 'w st) + 'w st \<Rightarrow> 'w st" where
  "issue_state x = (case x of Inl (res, s) \<Rightarrow> s | Inr s \<Rightarrow> s)"

definition issue_result ::
  "(Token option outcome \<times> 'w st) + 'w st \<Rightarrow> Token option outcome option" where
  "issue_result x = (case x of Inl (res, s) \<Rightarrow> Some res | Inr s \<Rightarrow> None)"

text \<open>
  \<open>lock_run h es\<close> follows the calls to \<^verbatim>\<open>Repo.Lock\<close> and \<^verbatim>\<open>Repo.Unlock\<close> in \<open>es\<close>;
  \<open>h\<close> tells whether a \<^verbatim>\<open>Lock\<close> is waiting for its \<^verbatim>\<open>Unlock\<close>. The run is \<open>None\<close> as
  soon as a \<^verbatim>\<open>Lock\<close> follows a \<^verbatim>\<open>Lock\<close> or an \<^verbatim>\<open>Unlock\<close> has no \<^verbatim>\<open>Lock\<close> before it.
\<close>

fun lock_run :: "bool \<Rightarrow> event list \<Rightarrow> bool option" where
  "lock_run h [] = Some h"
| "lock_run h (Lock_call e # es) = (if h then None else lock_run True es)"
| "lock_run h (Unlock_call e # es) = (if h then lock_run False es else None)"
| "lock_run h (x # es) = lock_run h es"

text \<open>
  Whether every call to \<^verbatim>\<open>Repo.StoreToken\<close> in \<open>es\<close> is made under the lock. \<open>acq\<close> tells
  which results of \<^verbatim>\<open>Repo.Lock\<close> count as taking the lock: \<open>acquired\<close> when the call
  returned nil, \<open>attempted\<close> when it was made at all. A call to \<^verbatim>\<open>Repo.Unlock\<close> gives the
  lock up.
\<close>

definition acquired :: "error option \<Rightarrow> bool" where
  "acquired e = (e = None)"

definition attempted :: "error option \<Rightarrow> bool" where
  "attempted e = True"

fun held_after :: "(error option \<Rightarrow> bool) \<Rightarrow> bool \<Rightarrow> event list \<Rightarrow> bool" where
  "held_after acq h [] = h"
| "held_after acq h (Lock_call e # es) = held_after acq (if acq e then True else h) es"
| "held_after acq h (Unlock_call e # es) = held_after acq False es"
| "held_after acq h (x # es) = held_after acq h es"

fun stores_under :: "(error option \<Rightarrow> bool) \<Rightarrow> bool \<Rightarrow> event list \<Rightarrow> bool" where
  "stores_under acq h [] = True"
| "stores_under acq h (Lock_call e # es) = stores_under acq (if acq e then True else h) es"
| "stores_under acq h (Unlock_call e # es) = stores_under acq False es"
| "stores_under acq h (StoreToken_call t e # es) = (if h then stores_under acq h es else False)"
| "stores_under acq h (x # es) = stores_under acq h es"

fun is_NewToken_call :: "event \<Rightarrow> bool" where
  "is_NewToken_call (NewToken_call t e) = True"
| "is_NewToken_call x = False"


section \<open>The runs of each function\<close>

text \<open>
  For each function of the keeper, the runs it can make: the keeper at entry, what is
  returned, the calls added and, where the function may write it, the cached token at
  exit. The lemmas below show that the functions make no other runs.
\<close>

inductive storeToken_tr :: "'w TokenKeeper \<Rightarrow> Token option \<Rightarrow> event list \<Rightarrow> bool" where
  st_no_repo: "repo k = None \<Longrightarrow> storeToken_tr k t []"
| st_stored: "repo k = Some r \<Longrightarrow> storeToken_tr k t [StoreToken_call t None]"
| st_failed: "repo k = Some r \<Longrightarrow> logger k \<Longrightarrow>
     storeToken_tr k t
       [StoreToken_call t (Some e), Log_error (Some e) ''failed to store token in repo'']"
| st_failed_mute: "repo k = Some r \<Longrightarrow> \<not> logger k \<Longrightarrow>
     storeToken_tr k t [StoreToken_call t (Some e)]"

inductive tokenFromRepo_tr :: "'w TokenKeeper \<Rightarrow> Token option \<Rightarrow> event list \<Rightarrow> bool" where
  fr_no_repo: "repo k = None \<Longrightarrow> tokenFromRepo_tr k None []"
| fr_hit: "repo k = Some r \<Longrightarrow>
     fst (fst (GetToken r w)) = t \<Longrightarrow> snd (fst (GetToken r w)) = None \<Longrightarrow>
     tokenFromRepo_tr k t [Lock_call l, GetToken_call t None, Unlock_call u]"
| fr_miss: "repo k = Some r \<Longrightarrow>
     fst (fst (GetToken r w)) = t \<Longrightarrow> snd (fst (GetToken r w)) = Some e \<Longrightarrow>
     tokenFromRepo_tr k None [Lock_call l, GetToken_call t (Some e), Unlock_call u]"

inductive tokenFromClient_tr ::
  "'w TokenKeeper \<Rightarrow> (Token option \<times> error option) outcome \<Rightarrow> event list \<Rightarrow>
   Token option \<Rightarrow> bool" where
  fc_no_client: "client k = None \<Longrightarrow>
     tokenFromClient_tr k (Return (None, Some ErrClientIsNil)) [] (token k)"
| fc_failed: "client k = Some c \<Longrightarrow>
     tokenFromClient_tr k (Return (None, Some e)) [NewToken_call t (Some e)] (token k)"
| fc_nil: "client k = Some c \<Longrightarrow>
     tokenFromClient_tr k Panic [NewToken_call None None] (token k)"
| fc_self_invalid: "client k = Some c \<Longrightarrow> Validate tk = Some e \<Longrightarrow>
     tokenFromClient_tr k (Return (Some tk, None)) [NewToken_call (Some tk) None] (token k)"
| fc_stored: "client k = Some c \<Longrightarrow> Validate tk = None \<Longrightarrow>
     storeToken_tr k (Some tk) es \<Longrightarrow>
     tokenFromClient_tr k (Return (Some tk, None)) (NewToken_call (Some tk) None # es) (Some tk)"

inductive getToken_locked_tr ::
  "'w TokenKeeper \<Rightarrow> 'w Repo \<Rightarrow> (Token option \<times> error option) outcome \<Rightarrow> event list \<Rightarrow>
   Token option \<Rightarrow> bool" where
  gl_cached: "token k = Some tk \<Longrightarrow>
     getToken_locked_tr k r (Return (Some tk, None)) [] (token k)"
| gl_hit: "token k = None \<Longrightarrow>
     fst (fst (GetToken r w)) = t \<Longrightarrow> snd (fst (GetToken r w)) = None \<Longrightarrow>
     getToken_locked_tr k r (Return (t, None)) [GetToken_call t None] (token k)"
| gl_miss: "token k = None \<Longrightarrow>
     fst (fst (GetToken r w)) = t \<Longrightarrow> snd (fst (GetToken r w)) = Some e \<Longrightarrow>
     tokenFromClient_tr k res es tok' \<Longrightarrow>
     getToken_locked_tr k r res (GetToken_call t (Some e) # es) tok'"

inductive getToken_tr ::
  "'w TokenKeeper \<Rightarrow> (Token option \<times> error option) outcome \<Rightarrow> event list \<Rightarrow>
   Token option \<Rightarrow> bool" where
  gt_fast: "tokenFromRepo_tr k (Some tk) es \<Longrightarrow>
     getToken_tr k (Return (Some tk, None)) es (token k)"
| gt_alone: "repo k = None \<Longrightarrow> tokenFromClient_tr k res es tok' \<Longrightarrow>
     getToken_tr k res es tok'"
| gt_locked: "repo k = Some r \<Longrightarrow> tokenFromRepo_tr k None es1 \<Longrightarrow>
     getToken_locked_tr k r res es2 tok' \<Longrightarrow>
     getToken_tr k res (es1 @ Lock_call l # es2 @ [Unlock_call u]) tok'"

inductive Token_issue_tr ::
  "'w TokenKeeper \<Rightarrow> Token option outcome option \<Rightarrow> event list \<Rightarrow> Token option \<Rightarrow> bool" where
  ti_cached: "token k = Some tk \<Longrightarrow> Token_issue_tr k None [] (token k)"
| ti_panic: "token k = None \<Longrightarrow> getToken_tr k Panic es tok' \<Longrightarrow>
     Token_issue_tr k (Some Panic) es tok'"
| ti_failed: "token k = None \<Longrightarrow> getToken_tr k (Return (None, err)) es tok' \<Longrightarrow>
     Token_issue_tr k
       (Some (Return (Some (newInvalidToken now (Some (Errorf ErrClientNewTokenFailed err))))))
       (es @ (if logger k then [Log_error err (Error ErrClientNewTokenFailed)] else [])) tok'"
| ti_adopt: "token k = None \<Longrightarrow> getToken_tr k (Return (Some tk, err)) es tok' \<Longrightarrow>
     Token_issue_tr k None es (Some tk)"

inductive Token_refresh_tr ::
  "'w TokenKeeper \<Rightarrow> error option \<Rightarrow> Token option outcome \<Rightarrow> event list \<Rightarrow>
   Token option \<Rightarrow> bool" where
  tr_valid: "Token_refresh_tr k None (Return (token k)) [] (token k)"
| tr_mute: "\<not> logger k \<Longrightarrow> Token_refresh_tr k (Some verr) Panic [] (token k)"
| tr_no_client: "logger k \<Longrightarrow> client k = None \<Longrightarrow>
     Token_refresh_tr k (Some verr) Panic [Log_warn (token k) (Some verr)] (token k)"
| tr_failed: "logger k \<Longrightarrow> client k = Some c \<Longrightarrow>
     Token_refresh_tr k (Some verr)
       (Return (Some (newInvalidToken now (Some (Errorf ErrClientRefreshTokenFailed (Some e))))))
       [Log_warn (token k) (Some verr), RefreshToken_call (token k) tok (Some e),
        Log_error (Some e) (Error ErrClientRefreshTokenFailed)] (token k)"
| tr_replaced: "logger k \<Longrightarrow> client k = Some c \<Longrightarrow> storeToken_tr k tok es \<Longrightarrow>
     Token_refresh_tr k (Some verr) (Return tok)
       (Log_warn (token k) (Some verr) # RefreshToken_call (token k) tok None # es) tok"

inductive Token_tr ::
  "'w TokenKeeper \<Rightarrow> Token option outcome \<Rightarrow> event list \<Rightarrow> Token option \<Rightarrow> bool" where
  tt_early: "Token_issue_tr k (Some res) es tok' \<Longrightarrow> Token_tr k res es tok'"
| tt_on: "Token_issue_tr k None es1 tok1 \<Longrightarrow>
     Token_refresh_tr (k\<lparr>token := tok1\<rparr>) (validateToken now tok1) res es2 tok' \<Longrightarrow>
     Token_tr k res (es1 @ es2) tok'"

section \<open>Renaming the errors of a Repo\<close>

text \<open>
  \<open>remapRepo f r\<close> behaves as the Repo \<open>r\<close> does, except that where \<open>r\<close> returns the error
  \<open>e\<close> it returns \<open>f e\<close>; \<open>remap_errors f s\<close> gives the keeper of \<open>s\<close> that Repo. Two
  states are in \<open>sim f\<close> when they differ in the calls recorded and in this renaming only.
\<close>

definition remapRepo :: "(error \<Rightarrow> error) \<Rightarrow> 'w Repo \<Rightarrow> 'w Repo" where
  "remapRepo f r =
     \<lparr>GetToken = (\<lambda>w. case GetToken r w of ((t, e), w') \<Rightarrow> ((t, map_option f e), w')),
      StoreToken = (\<lambda>t w. case StoreToken r t w of (e, w') \<Rightarrow> (map_option f e, w')),
      Lock = (\<lambda>w. case Lock r w of (e, w') \<Rightarrow> (map_option f e, w')),
      Unlock = (\<lambda>w. case Unlock r w of (e, w') \<Rightarrow> (map_option f e, w'))\<rparr>"

definition remap_errors :: "(error \<Rightarrow> error) \<Rightarrow> 'w st \<Rightarrow> 'w st" where
  "remap_errors f s =
     s\<lparr>keeper := (keeper s)\<lparr>repo := map_option (remapRepo f) (repo (keeper s))\<rparr>\<rparr>"

definition sim :: "(error \<Rightarrow> error) \<Rightarrow> 'w st \<Rightarrow> 'w st \<Rightarrow> bool" where
  "sim f s s' =
     (world s' = world s \<and>
      keeper s' = (keeper s)\<lparr>repo := map_option (remapRepo f) (repo (keeper s))\<rparr>)"

section \<open>The doubles of the tests\<close>

text \<open>
  The tests of the repository run the keeper against \<^verbatim>\<open>fakeClient\<close> and \<^verbatim>\<open>fakeRepo\<close>. Their
  world is the clock, the \<^verbatim>\<open>storage\<close> that the \<^verbatim>\<open>fakeRepo\<close>s of all pods point to (the token
  and the mutex, here whether it is taken) and the number of tokens made so far (the sum
  of the \<^verbatim>\<open>reqCount\<close> of the clients).

  \<^verbatim>\<open>newFakeToken\<close> makes a token good for a minute from now, named by
  \<^verbatim>\<open>uuid.NewString()\<close>, a string no token made before has: here the token made after \<open>n\<close>
  others is named by \<open>n + 1\<close> letters x. \<open>fakeClient err\<close> is the \<^verbatim>\<open>fakeClient\<close> whose field
  \<^verbatim>\<open>err\<close> is \<open>err\<close>. The time the doubles sleep is left out. \<^verbatim>\<open>fakeRepo.Lock\<close> waits for a
  mutex that is taken; no run below calls it on one, and the model does not wait.
  \<^verbatim>\<open>fakeRepo.StoreToken\<close> keeps a copy of what the four methods of the token return; it is
  never handed a nil token, since \<^verbatim>\<open>fakeClient\<close> returns none without an error.
\<close>

record testworld =
  time_Now :: time
  storage :: "Token option"
  locked :: bool
  reqCount :: nat

definition Minute :: time where
  "Minute = 60000000000"

definition newFakeToken :: "testworld \<Rightarrow> Token" where
  "newFakeToken w =
     \<lparr>String = replicate (Suc (reqCount w)) (CHR ''x''), Created = time_Now w,
      Expires = time_Now w + Minute, Validate = None\<rparr>"

definition fakeClient :: "error option \<Rightarrow> testworld Client" where
  "fakeClient err =
     \<lparr>NewToken = (\<lambda>w. if err \<noteq> None then ((None, err), w)
                       else ((Some (newFakeToken w), None), w\<lparr>reqCount := Suc (reqCount w)\<rparr>)),
      RefreshToken = (\<lambda>old w. if err \<noteq> None then ((None, err), w)
                       else ((Some (newFakeToken w), None), w\<lparr>reqCount := Suc (reqCount w)\<rparr>))\<rparr>"

definition fakeRepo :: "testworld Repo" where
  "fakeRepo =
     \<lparr>GetToken = (\<lambda>w. if storage w = None then ((None, Some (New ''no token'')), w)
                       else ((storage w, None), w)),
      StoreToken = (\<lambda>t w. (None, w\<lparr>storage := t\<rparr>)),
      Lock = (\<lambda>w. (None, w\<lparr>locked := True\<rparr>)),
      Unlock = (\<lambda>w. (None, w\<lparr>locked := False\<rparr>))\<rparr>"

section \<open>Collaborators and keepers of the examples\<close>

text \<open>
  A client and a Repo that answer every call in one fixed way, and leave the world as it
  is. The world of the examples is the time itself; it is 100 throughout, and the clock
  is \<open>id\<close>. \<open>example cached c r\<close> is the keeper built by \<^verbatim>\<open>NewTokenKeeper(c).WithRepo(r)\<close>,
  holding \<open>cached\<close>, before any call is recorded.
\<close>

definition fixedClient ::
  "Token option \<times> error option \<Rightarrow> Token option \<times> error option \<Rightarrow> 'w Client" where
  "fixedClient n r = \<lparr>NewToken = (\<lambda>w. (n, w)), RefreshToken = (\<lambda>old w. (r, w))\<rparr>"

definition fixedRepo ::
  "Token option \<times> error option \<Rightarrow> error option \<Rightarrow> error option \<Rightarrow> error option \<Rightarrow> 'w Repo" where
  "fixedRepo g st l u =
     \<lparr>GetToken = (\<lambda>w. (g, w)), StoreToken = (\<lambda>t w. (st, w)),
      Lock = (\<lambda>w. (l, w)), Unlock = (\<lambda>w. (u, w))\<rparr>"

definition example :: "Token option \<Rightarrow> time Client option \<Rightarrow> time Repo option \<Rightarrow> time st" where
  "example cached c r =
     \<lparr>keeper = (WithRepo r (NewTokenKeeper c))\<lparr>token := cached\<rparr>, world = 100, calls = []\<rparr>"

text \<open>
  Four tokens: one that expired at 50, one good until 200, one that expires at 100, the
  very instant of the examples, and one whose own \<^verbatim>\<open>Validate()\<close> fails.
\<close>

definition expired_token :: Token where
  "expired_token = \<lparr>String = ''old'', Created = 0, Expires = 50, Validate = None\<rparr>"

definition fresh_token :: Token where
  "fresh_token = \<lparr>String = ''new'', Created = 100, Expires = 200, Validate = None\<rparr>"

definition due_token :: Token where
  "due_token = \<lparr>String = ''due'', Created = 0, Expires = 100, Validate = None\<rparr>"

definition revoked_token :: Token where
  "revoked_token =
     \<lparr>String = ''bad'', Created = 100, Expires = 200, Validate = Some (New ''revoked'')\<rparr>"

definition no_token :: error where
  "no_token = New ''no token''"

definition down :: error where
  "down = New ''unavailable''"

text \<open>
  The keepers. Unless said otherwise the cache is empty, the client issues and refreshes
  to \<open>fresh_token\<close>, and the Repo holds no token and otherwise works.
  \<^item> \<open>stale_cache\<close>: the expired token is cached.
  \<^item> \<open>lock_refused\<close>: \<^verbatim>\<open>Repo.Lock\<close> fails.
  \<^item> \<open>first_start\<close>: nothing else.
  \<^item> \<open>stale_repo_refresh_down\<close>: the Repo holds the expired token; \<^verbatim>\<open>RefreshToken\<close> fails.
  \<^item> \<open>fresh_repo\<close>: the Repo holds the good token.
  \<^item> \<open>stale_repo_no_client\<close>: the Repo holds the expired token; there is no client.
  \<^item> \<open>due_cache\<close>: the token that expires now is cached; no Repo.
  \<^item> \<open>client_down\<close>: both calls of the client fail; no Repo.
  \<^item> \<open>stale_cache_refresh_down\<close>: the same, with the expired token cached.
  \<^item> \<open>repo_down\<close>: every call of the Repo fails.
  \<^item> \<open>echo_start\<close>: \<^verbatim>\<open>NewToken\<close> issues the token that fails its own validation, and
    \<^verbatim>\<open>RefreshToken\<close> returns that token again.
  \<^item> \<open>self_invalid_start\<close>: \<^verbatim>\<open>NewToken\<close> issues that token; \<^verbatim>\<open>RefreshToken\<close> returns the good one.
\<close>

definition stale_cache :: "time st" where
  "stale_cache =
     example (Some expired_token)
       (Some (fixedClient (Some fresh_token, None) (Some fresh_token, None)))
       (Some (fixedRepo (None, Some no_token) None None None))"

definition lock_refused :: "time st" where
  "lock_refused =
     example None
       (Some (fixedClient (Some fresh_token, None) (Some fresh_token, None)))
       (Some (fixedRepo (None, Some no_token) None (Some down) None))"

definition first_start :: "time st" where
  "first_start =
     example None
       (Some (fixedClient (Some fresh_token, None) (Some fresh_token, None)))
       (Some (fixedRepo (None, Some no_token) None None None))"

definition stale_repo_refresh_down :: "time st" where
  "stale_repo_refresh_down =
     example None
       (Some (fixedClient (Some fresh_token, None) (None, Some down)))
       (Some (fixedRepo (Some expired_token, None) None None None))"

definition fresh_repo :: "time st" where
  "fresh_repo =
     example None
       (Some (fixedClient (Some fresh_token, None) (Some fresh_token, None)))
       (Some (fixedRepo (Some fresh_token, None) None None None))"

definition stale_repo_no_client :: "time st" where
  "stale_repo_no_client =
     example None None (Some (fixedRepo (Some expired_token, None) None None None))"

definition due_cache :: "time st" where
  "due_cache =
     example (Some due_token)
       (Some (fixedClient (Some fresh_token, None) (Some fresh_token, None))) None"

definition client_down :: "time st" where
  "client_down = example None (Some (fixedClient (None, Some down) (None, Some down))) None"

definition stale_cache_refresh_down :: "time st" where
  "stale_cache_refresh_down =
     example (Some expired_token) (Some (fixedClient (None, Some down) (None, Some down))) None"

definition repo_down :: "time st" where
  "repo_down =
     example None
       (Some (fixedClient (Some fresh_token, None) (Some fresh_token, None)))
       (Some (fixedRepo (None, Some down) (Some down) (Some down) (Some down)))"

definition echo_start :: "time st" where
  "echo_start =
     example None
       (Some (fixedClient (Some revoked_token, None) (Some revoked_token, None)))
       (Some (fixedRepo (None, Some no_token) None None None))"

definition self_invalid_start :: "time st" where
  "self_invalid_start =
     example None
       (Some (fixedClient (Some revoked_token, None) (Some fresh_token, None)))
       (Some (fixedRepo (None, Some no_token) None None None))"

text \<open>
  Keepers on the doubles of the tests. \<open>pod\<close> is the keeper each pod of the tests starts
  with, \<^verbatim>\<open>NewTokenKeeper(client).WithRepo(repo)\<close>; \<open>startup\<close> is the world before anything
  has happened, at time 0: nothing stored, the lock free, no token made. \<open>later d\<close> lets
  the time \<open>d\<close> pass.
  \<^item> \<open>stuckRepo e\<close>: the \<^verbatim>\<open>fakeRepo\<close>, except that \<^verbatim>\<open>Unlock\<close> fails with \<open>e\<close> and leaves the
    lock as it is.
  \<^item> \<open>stuck_unlock\<close>: a keeper on \<open>stuckRepo down\<close>, the storage holding the good token.
  \<^item> \<open>empty_repo_start\<close>: a pod at startup, before any call.
  \<^item> \<open>lone_keeper\<close>: the same without a Repo.
  \<^item> \<open>two_pods\<close>: two pods, started at startup, after each has called \<^verbatim>\<open>Token()\<close> once.
  \<^item> \<open>two_pods_after_expiry\<close>: the same two pods two minutes later, after each has called
    \<^verbatim>\<open>Token()\<close> once more.
  \<^item> \<open>two_pods_repo_down\<close>: two keepers whose Repo fails every call, after each has called
    \<^verbatim>\<open>Token()\<close> once.
\<close>

definition stuckRepo :: "error \<Rightarrow> testworld Repo" where
  "stuckRepo e = fakeRepo\<lparr>Unlock := (\<lambda>w. (Some e, w))\<rparr>"

definition pod :: "testworld TokenKeeper" where
  "pod = WithRepo (Some fakeRepo) (NewTokenKeeper (Some (fakeClient None)))"

definition startup :: testworld where
  "startup = \<lparr>time_Now = 0, storage = None, locked = False, reqCount = 0\<rparr>"


definition stuck_unlock :: "testworld st" where
  "stuck_unlock =
     \<lparr>keeper = WithRepo (Some (stuckRepo down)) (NewTokenKeeper (Some (fakeClient None))),
      world = startup\<lparr>storage := Some fresh_token\<rparr>, calls = []\<rparr>"

definition empty_repo_start :: "testworld st" where
  "empty_repo_start = \<lparr>keeper = pod, world = startup, calls = []\<rparr>"





section \<open>The functions make the runs above\<close>

lemma new_calls_append [simp]: "calls s' = calls s @ es \<Longrightarrow> new_calls s s' = es"
  by (simp add: new_calls_def)

lemma call_Lock_simps [simp]:
  "keeper (snd (call_Lock r s)) = keeper s"
  "calls (snd (call_Lock r s)) = calls s @ [Lock_call (fst (call_Lock r s))]"
  "world (snd (call_Lock r s)) = snd (Lock r (world s))"
  by (simp_all add: call_Lock_def split_beta)

lemma call_Unlock_simps [simp]:
  "keeper (snd (call_Unlock r s)) = keeper s"
  "calls (snd (call_Unlock r s)) = calls s @ [Unlock_call (fst (call_Unlock r s))]"
  "world (snd (call_Unlock r s)) = snd (Unlock r (world s))"
  by (simp_all add: call_Unlock_def split_beta)

lemma call_GetToken_simps [simp]:
  "keeper (snd (call_GetToken r s)) = keeper s"
  "calls (snd (call_GetToken r s)) =
     calls s @ [GetToken_call (fst (fst (call_GetToken r s))) (snd (fst (call_GetToken r s)))]"
  "world (snd (call_GetToken r s)) = snd (GetToken r (world s))"
  "fst (call_GetToken r s) = fst (GetToken r (world s))"
  by (simp_all add: call_GetToken_def split_beta)

lemma call_StoreToken_simps [simp]:
  "keeper (snd (call_StoreToken r t s)) = keeper s"
  "calls (snd (call_StoreToken r t s)) = calls s @ [StoreToken_call t (fst (call_StoreToken r t s))]"
  "world (snd (call_StoreToken r t s)) = snd (StoreToken r t (world s))"
  by (simp_all add: call_StoreToken_def split_beta)

lemma call_NewToken_simps [simp]:
  "keeper (snd (call_NewToken c s)) = keeper s"
  "calls (snd (call_NewToken c s)) =
     calls s @ [NewToken_call (fst (fst (call_NewToken c s))) (snd (fst (call_NewToken c s)))]"
  "world (snd (call_NewToken c s)) = snd (NewToken c (world s))"
  "fst (call_NewToken c s) = fst (NewToken c (world s))"
  by (simp_all add: call_NewToken_def split_beta)

lemma call_RefreshToken_simps [simp]:
  "keeper (snd (call_RefreshToken c old s)) = keeper s"
  "calls (snd (call_RefreshToken c old s)) =
     calls s @ [RefreshToken_call old (fst (fst (call_RefreshToken c old s)))
                  (snd (fst (call_RefreshToken c old s)))]"
  "world (snd (call_RefreshToken c old s)) = snd (RefreshToken c old (world s))"
  "fst (call_RefreshToken c old s) = fst (RefreshToken c old (world s))"
  by (simp_all add: call_RefreshToken_def split_beta)

lemma logError_simps [simp]:
  "keeper (logError err msg s) = keeper s"
  "world (logError err msg s) = world s"
  "calls (logError err msg s) = calls s @ (if logger (keeper s) then [Log_error err msg] else [])"
  by (simp_all add: logError_def)

lemma set_token_simps [simp]:
  "keeper (set_token t s) = (keeper s)\<lparr>token := t\<rparr>"
  "world (set_token t s) = world s"
  "calls (set_token t s) = calls s"
  by (simp_all add: set_token_def)

lemma storeToken_keeper [simp]: "keeper (storeToken t s) = (keeper s)\<lparr>token := t\<rparr>"
  by (simp add: storeToken_def split_beta split: option.splits)

lemma storeToken_sound:
  "\<exists>es. calls (storeToken t s) = calls s @ es \<and> storeToken_tr (keeper s) t es"
  by (auto simp: storeToken_def split_beta split: option.splits intro: storeToken_tr.intros)

lemma tokenFromRepo_keeper [simp]: "keeper (snd (tokenFromRepo s)) = keeper s"
  by (simp add: tokenFromRepo_def split_beta split: option.splits)

lemma tokenFromRepo_sound:
  "\<exists>es. calls (snd (tokenFromRepo s)) = calls s @ es \<and>
        tokenFromRepo_tr (keeper s) (fst (tokenFromRepo s)) es"
  by (auto simp: tokenFromRepo_def split_beta split: option.splits
           intro: tokenFromRepo_tr.intros)


lemma tokenFromClient_keeper:
  "keeper (snd (tokenFromClient s)) =
     (keeper s)\<lparr>token := token (keeper (snd (tokenFromClient s)))\<rparr>"
  by (simp add: tokenFromClient_def split_beta split: option.splits)

lemma tokenFromClient_sound:
  "\<exists>es. calls (snd (tokenFromClient s)) = calls s @ es \<and>
        tokenFromClient_tr (keeper s) (fst (tokenFromClient s)) es
          (token (keeper (snd (tokenFromClient s))))"
proof (cases "client (keeper s)")
  case None
  then show ?thesis by (simp add: tokenFromClient_def fc_no_client)
next
  case (Some c)
  define s1 where "s1 = snd (call_NewToken c s)"
  define t where "t = fst (fst (NewToken c (world s)))"
  define e where "e = snd (fst (NewToken c (world s)))"
  have c1: "calls s1 = calls s @ [NewToken_call t e]" and k1: "keeper s1 = keeper s"
    by (simp_all add: s1_def t_def e_def)
  consider (failed) x where "e = Some x" | (nil) "e = None" "t = None"
    | (bad) tk x where "e = None" "t = Some tk" "Validate tk = Some x"
    | (good) tk where "e = None" "t = Some tk" "Validate tk = None"
    by (cases e; cases t; cases "Validate (the t)"; auto)
  then show ?thesis
  proof cases
    case failed
    then show ?thesis using Some c1 k1 fc_failed [of "keeper s" c x t]
      by (simp add: tokenFromClient_def split_beta s1_def t_def e_def)
  next
    case nil
    then show ?thesis using Some c1 k1 fc_nil [of "keeper s" c]
      by (simp add: tokenFromClient_def split_beta s1_def t_def e_def)
  next
    case bad
    then show ?thesis using Some c1 k1 fc_self_invalid [of "keeper s" c tk x]
      by (simp add: tokenFromClient_def split_beta s1_def t_def e_def)
  next
    case good
    obtain es where es: "calls (storeToken t s1) = calls s1 @ es" "storeToken_tr (keeper s1) t es"
      using storeToken_sound by blast
    have "tokenFromClient s = (Return (t, None), storeToken t s1)"
      using good Some by (simp add: tokenFromClient_def split_beta s1_def t_def e_def)
    then show ?thesis using good Some c1 k1 es fc_stored [of "keeper s" c tk es]
      by simp
  qed
qed


lemma getToken_locked_keeper:
  "keeper (snd (getToken_locked r s)) =
     (keeper s)\<lparr>token := token (keeper (snd (getToken_locked r s)))\<rparr>"
  using tokenFromClient_keeper [of "snd (call_GetToken r s)"]
  by (simp add: getToken_locked_def split_beta)

lemma getToken_locked_sound:
  "\<exists>es. calls (snd (getToken_locked r s)) = calls s @ es \<and>
        getToken_locked_tr (keeper s) r (fst (getToken_locked r s)) es
          (token (keeper (snd (getToken_locked r s))))"
proof (cases "token (keeper s)")
  case (Some tk)
  then show ?thesis using gl_cached [of "keeper s" tk r]
    by (simp add: getToken_locked_def)
next
  case None
  define s1 where "s1 = snd (call_GetToken r s)"
  define t where "t = fst (fst (GetToken r (world s)))"
  define e where "e = snd (fst (GetToken r (world s)))"
  have c1: "calls s1 = calls s @ [GetToken_call t e]" and k1: "keeper s1 = keeper s"
    by (simp_all add: s1_def t_def e_def)
  show ?thesis
  proof (cases e)
    case eNone: None
    then show ?thesis using None c1 k1 gl_hit [of "keeper s" r "world s" t]
      by (simp add: getToken_locked_def split_beta s1_def t_def e_def)
  next
    case (Some x)
    obtain es where es: "calls (snd (tokenFromClient s1)) = calls s1 @ es"
      "tokenFromClient_tr (keeper s1) (fst (tokenFromClient s1)) es
         (token (keeper (snd (tokenFromClient s1))))"
      using tokenFromClient_sound by blast
    have "getToken_locked r s = tokenFromClient s1"
      using None Some by (simp add: getToken_locked_def split_beta s1_def e_def)
    then show ?thesis
      using None Some c1 k1 es
        gl_miss [of "keeper s" r "world s" t x "fst (tokenFromClient s1)" es
                    "token (keeper (snd (tokenFromClient s1)))"]
      by (simp add: t_def e_def)
  qed
qed


lemma getToken_keeper:
  "keeper (snd (getToken s)) = (keeper s)\<lparr>token := token (keeper (snd (getToken s)))\<rparr>"
proof (cases "fst (tokenFromRepo s)")
  case (Some tk)
  then show ?thesis by (simp add: getToken_def split_beta)
next
  case None
  show ?thesis
  proof (cases "repo (keeper s)")
    case rNone: None
    then show ?thesis
      using None tokenFromClient_keeper [of "snd (tokenFromRepo s)"]
      by (simp add: getToken_def split_beta)
  next
    case (Some r)
    then show ?thesis
      using None getToken_locked_keeper [of r "snd (call_Lock r (snd (tokenFromRepo s)))"]
      by (simp add: getToken_def split_beta)
  qed
qed

lemma getToken_sound:
  "\<exists>es. calls (snd (getToken s)) = calls s @ es \<and>
        getToken_tr (keeper s) (fst (getToken s)) es (token (keeper (snd (getToken s))))"
proof -
  define s1 where "s1 = snd (tokenFromRepo s)"
  obtain es1 where es1: "calls s1 = calls s @ es1"
      "tokenFromRepo_tr (keeper s) (fst (tokenFromRepo s)) es1"
    using tokenFromRepo_sound unfolding s1_def by blast
  have k1: "keeper s1 = keeper s" by (simp add: s1_def)
  show ?thesis
  proof (cases "fst (tokenFromRepo s)")
    case (Some tk)
    then have "getToken s = (Return (Some tk, None), s1)"
      by (simp add: getToken_def split_beta s1_def)
    then show ?thesis using Some es1 k1 gt_fast [of "keeper s" tk es1] by simp
  next
    case None
    show ?thesis
    proof (cases "repo (keeper s)")
      case rNone: None
      then have "tokenFromRepo s = (None, s)" by (simp add: tokenFromRepo_def)
      then have "getToken s = tokenFromClient s" using rNone by (simp add: getToken_def)
      then show ?thesis
        using rNone tokenFromClient_sound [of s] gt_alone [of "keeper s"] by auto
    next
      case (Some r)
      define s2 where "s2 = snd (call_Lock r s1)"
      define s3 where "s3 = snd (getToken_locked r s2)"
      define s4 where "s4 = snd (call_Unlock r s3)"
      have k2: "keeper s2 = keeper s" using k1 by (simp add: s2_def)
      obtain es2 where es2: "calls s3 = calls s2 @ es2"
          "getToken_locked_tr (keeper s2) r (fst (getToken_locked r s2)) es2 (token (keeper s3))"
        using getToken_locked_sound unfolding s3_def by blast
      have g: "getToken s = (fst (getToken_locked r s2), s4)"
        using None Some k1 by (simp add: getToken_def split_beta s1_def s2_def s3_def s4_def)
      have c4: "calls s4 = calls s @ (es1 @ Lock_call (fst (call_Lock r s1)) # es2 @
                  [Unlock_call (fst (call_Unlock r s3))])"
        using es1 es2 by (simp add: s4_def s2_def)
      have k4: "token (keeper s4) = token (keeper s3)" by (simp add: s4_def)
      have "getToken_tr (keeper s) (fst (getToken_locked r s2))
              (es1 @ Lock_call (fst (call_Lock r s1)) # es2 @ [Unlock_call (fst (call_Unlock r s3))])
              (token (keeper s3))"
        using Some None es1 es2 k2 by (auto intro: gt_locked)
      then show ?thesis using g c4 k4 by auto
    qed
  qed
qed

lemma getToken_cfg [simp]:
  "client (keeper (snd (getToken s))) = client (keeper s)"
  "logger (keeper (snd (getToken s))) = logger (keeper s)"
  "repo (keeper (snd (getToken s))) = repo (keeper s)"
  using arg_cong [OF getToken_keeper, of client s] arg_cong [OF getToken_keeper, of logger s]
    arg_cong [OF getToken_keeper, of repo s]
  by simp_all

lemma Token_issue_cfg [simp]:
  "client (keeper (issue_state (Token_issue clock s))) = client (keeper s)"
  "logger (keeper (issue_state (Token_issue clock s))) = logger (keeper s)"
  "repo (keeper (issue_state (Token_issue clock s))) = repo (keeper s)"
  by (simp_all add: Token_issue_def issue_state_def split_beta Let_def
           split: outcome.splits option.splits)

lemma Token_issue_keeper:
  "keeper (issue_state (Token_issue clock s)) =
     (keeper s)\<lparr>token := token (keeper (issue_state (Token_issue clock s)))\<rparr>"
  by (rule TokenKeeper.equality) simp_all

lemma Token_issue_sound:
  "\<exists>es. calls (issue_state (Token_issue clock s)) = calls s @ es \<and>
        Token_issue_tr (keeper s) (issue_result (Token_issue clock s)) es
          (token (keeper (issue_state (Token_issue clock s))))"
proof (cases "token (keeper s)")
  case (Some tk)
  then show ?thesis using ti_cached [of "keeper s" tk]
    by (simp add: Token_issue_def issue_state_def issue_result_def)
next
  case None
  define s1 where "s1 = snd (getToken s)"
  obtain es where es: "calls s1 = calls s @ es"
      "getToken_tr (keeper s) (fst (getToken s)) es (token (keeper s1))"
    using getToken_sound unfolding s1_def by blast
  have k1: "logger (keeper s1) = logger (keeper s)"
    by (simp add: s1_def)
  show ?thesis
  proof (cases "fst (getToken s)")
    case Panic
    then have "Token_issue clock s = Inl (Panic, s1)"
      using None by (simp add: Token_issue_def split_beta s1_def)
    then show ?thesis using Panic None es ti_panic [of "keeper s" es]
      by (simp add: issue_state_def issue_result_def)
  next
    case (Return p)
    obtain t err where p: "p = (t, err)" by (cases p)
    show ?thesis
    proof (cases t)
      case tNone: None
      have "Token_issue clock s =
              Inl (Return (Some (newInvalidToken (clock (world s1))
                     (Some (Errorf ErrClientNewTokenFailed err)))),
                   logError err (Error ErrClientNewTokenFailed) s1)"
        using None Return p tNone
        by (simp add: Token_issue_def s1_def split_beta Let_def)
      then show ?thesis
        using None Return p tNone es k1
          ti_failed [of "keeper s" err es "token (keeper s1)" "clock (world s1)"]
        by (simp add: issue_state_def issue_result_def)
    next
      case (Some tk)
      have "Token_issue clock s = Inr (set_token (Some tk) s1)"
        using None Return p Some
        by (simp add: Token_issue_def s1_def split_beta)
      then show ?thesis
        using None Return p Some es ti_adopt [of "keeper s" tk err es]
        by (simp add: issue_state_def issue_result_def)
    qed
  qed
qed


lemma Token_refresh_keeper:
  "keeper (snd (Token_refresh clock s)) =
     (keeper s)\<lparr>token := token (keeper (snd (Token_refresh clock s)))\<rparr>"
  by (simp add: Token_refresh_def split_beta Let_def split: option.splits)

lemma Token_refresh_sound:
  "\<exists>es. calls (snd (Token_refresh clock s)) = calls s @ es \<and>
        Token_refresh_tr (keeper s) (validateToken (clock (world s)) (token (keeper s)))
          (fst (Token_refresh clock s)) es (token (keeper (snd (Token_refresh clock s))))"
proof (cases "validateToken (clock (world s)) (token (keeper s))")
  case None
  then show ?thesis using tr_valid [of "keeper s"] by (simp add: Token_refresh_def)
next
  case (Some verr)
  show ?thesis
  proof (cases "logger (keeper s)")
    case False
    then show ?thesis using Some tr_mute [of "keeper s" verr] by (simp add: Token_refresh_def)
  next
    case True
    define s1 where "s1 = s\<lparr>calls := calls s @ [Log_warn (token (keeper s)) (Some verr)]\<rparr>"
    have k1: "keeper s1 = keeper s" and w1: "world s1 = world s"
      and c1: "calls s1 = calls s @ [Log_warn (token (keeper s)) (Some verr)]"
      by (simp_all add: s1_def)
    show ?thesis
    proof (cases "client (keeper s)")
      case None
      then show ?thesis using Some True tr_no_client [of "keeper s" verr]
        by (simp add: Token_refresh_def Let_def)
    next
      case c: (Some c)
      define s2 where "s2 = snd (call_RefreshToken c (token (keeper s)) s1)"
      define tok where "tok = fst (fst (RefreshToken c (token (keeper s)) (world s)))"
      define err where "err = snd (fst (RefreshToken c (token (keeper s)) (world s)))"
      have k2: "keeper s2 = keeper s"
        and c2: "calls s2 = calls s @ [Log_warn (token (keeper s)) (Some verr),
                    RefreshToken_call (token (keeper s)) tok err]"
        by (simp_all add: s2_def s1_def tok_def err_def)
      show ?thesis
      proof (cases err)
        case (Some e)
        have "Token_refresh clock s =
                (Return (Some (newInvalidToken (clock (world s2))
                   (Some (Errorf ErrClientRefreshTokenFailed err)))),
                 logError err (Error ErrClientRefreshTokenFailed) s2)"
          using \<open>validateToken (clock (world s)) (token (keeper s)) = Some verr\<close> True c Some
          by (simp add: Token_refresh_def Let_def split_beta s2_def s1_def err_def)
        then show ?thesis
          using \<open>validateToken (clock (world s)) (token (keeper s)) = Some verr\<close> True c Some k2 c2
            tr_failed [of "keeper s" c verr "clock (world s2)" e tok]
          by simp
      next
        case None
        obtain es where es: "calls (storeToken tok s2) = calls s2 @ es"
            "storeToken_tr (keeper s2) tok es"
          using storeToken_sound by blast
        have "Token_refresh clock s = (Return tok, storeToken tok s2)"
          using \<open>validateToken (clock (world s)) (token (keeper s)) = Some verr\<close> True c None
          by (simp add: Token_refresh_def Let_def split_beta s2_def s1_def err_def tok_def)
        then show ?thesis
          using \<open>validateToken (clock (world s)) (token (keeper s)) = Some verr\<close> True c None k2 c2 es
            tr_replaced [of "keeper s" c tok es verr]
          by simp
      qed
    qed
  qed
qed

lemma Token_unfold:
  "Token clock s =
     (case issue_result (Token_issue clock s) of
        Some res \<Rightarrow> (res, issue_state (Token_issue clock s))
      | None \<Rightarrow> Token_refresh clock (issue_state (Token_issue clock s)))"
  by (simp add: Token_def issue_result_def issue_state_def split: sum.splits prod.splits)

lemma Token_sound:
  "\<exists>es. calls (snd (Token clock s)) = calls s @ es \<and>
        Token_tr (keeper s) (fst (Token clock s)) es (token (keeper (snd (Token clock s))))"
proof -
  define s1 where "s1 = issue_state (Token_issue clock s)"
  obtain es1 where es1: "calls s1 = calls s @ es1"
      "Token_issue_tr (keeper s) (issue_result (Token_issue clock s)) es1 (token (keeper s1))"
    using Token_issue_sound unfolding s1_def by blast
  have k1: "keeper s1 = (keeper s)\<lparr>token := token (keeper s1)\<rparr>"
    unfolding s1_def by (rule Token_issue_keeper)
  show ?thesis
  proof (cases "issue_result (Token_issue clock s)")
    case (Some res)
    then have "Token clock s = (res, s1)" by (simp add: Token_unfold s1_def)
    then show ?thesis using Some es1 tt_early [of "keeper s" res es1] by simp
  next
    case None
    then have t: "Token clock s = Token_refresh clock s1" by (simp add: Token_unfold s1_def)
    obtain es2 where es2: "calls (snd (Token_refresh clock s1)) = calls s1 @ es2"
        "Token_refresh_tr (keeper s1) (validateToken (clock (world s1)) (token (keeper s1)))
           (fst (Token_refresh clock s1)) es2 (token (keeper (snd (Token_refresh clock s1))))"
      using Token_refresh_sound by blast
    have "Token_tr (keeper s) (fst (Token_refresh clock s1)) (es1 @ es2)
            (token (keeper (snd (Token_refresh clock s1))))"
      using None es1 es2 k1
        tt_on [of "keeper s" es1 "token (keeper s1)" "clock (world s1)"
                  "fst (Token_refresh clock s1)" es2
                  "token (keeper (snd (Token_refresh clock s1)))"]
      by simp
    then show ?thesis using t es1 es2 by simp
  qed
qed

section \<open>What the runs have in common\<close>

lemma lock_run_append:
  "lock_run h (a @ b) = (case lock_run h a of None \<Rightarrow> None | Some h' \<Rightarrow> lock_run h' b)"
  by (induction h a rule: lock_run.induct) auto

lemma storeToken_tr_lock: "storeToken_tr k t es \<Longrightarrow> lock_run h es = Some h"
  by (erule storeToken_tr.cases) simp_all

lemma tokenFromRepo_tr_lock: "tokenFromRepo_tr k res es \<Longrightarrow> lock_run False es = Some False"
  by (erule tokenFromRepo_tr.cases) simp_all

lemma tokenFromClient_tr_lock: "tokenFromClient_tr k res es tok' \<Longrightarrow> lock_run h es = Some h"
  by (erule tokenFromClient_tr.cases) (simp_all add: storeToken_tr_lock)

lemma getToken_locked_tr_lock: "getToken_locked_tr k r res es tok' \<Longrightarrow> lock_run h es = Some h"
  by (erule getToken_locked_tr.cases) (simp_all add: tokenFromClient_tr_lock)

lemma getToken_tr_lock: "getToken_tr k res es tok' \<Longrightarrow> lock_run False es = Some False"
  by (erule getToken_tr.cases)
     (simp_all add: tokenFromRepo_tr_lock tokenFromClient_tr_lock getToken_locked_tr_lock
        lock_run_append)

lemma Token_issue_tr_lock: "Token_issue_tr k r es tok' \<Longrightarrow> lock_run False es = Some False"
  by (erule Token_issue_tr.cases) (simp_all add: getToken_tr_lock lock_run_append)

lemma Token_refresh_tr_lock: "Token_refresh_tr k v res es tok' \<Longrightarrow> lock_run h es = Some h"
  by (erule Token_refresh_tr.cases) (simp_all add: storeToken_tr_lock)

lemma Token_tr_lock: "Token_tr k res es tok' \<Longrightarrow> lock_run False es = Some False"
  by (erule Token_tr.cases)
     (simp_all add: Token_issue_tr_lock Token_refresh_tr_lock lock_run_append)

lemma stores_under_append:
  "stores_under acq h (a @ b) =
     (if stores_under acq h a then stores_under acq (held_after acq h a) b else False)"
  by (induction acq h a rule: stores_under.induct) auto

lemma storeToken_tr_stores:
  "storeToken_tr k t es \<Longrightarrow> stores_under acq True es \<and> held_after acq h es = h"
  by (erule storeToken_tr.cases) simp_all

lemma storeToken_tr_no_repo: "storeToken_tr k t es \<Longrightarrow> repo k = None \<Longrightarrow> es = []"
  by (erule storeToken_tr.cases) simp_all

lemma tokenFromRepo_tr_stores:
  "tokenFromRepo_tr k res es \<Longrightarrow> stores_under acq h es \<and> held_after acq False es = False"
  by (erule tokenFromRepo_tr.cases) simp_all

lemma tokenFromClient_tr_stores:
  "tokenFromClient_tr k res es tok' \<Longrightarrow> stores_under acq True es \<and> held_after acq h es = h"
  by (erule tokenFromClient_tr.cases) (simp_all add: storeToken_tr_stores)

lemma tokenFromClient_tr_alone:
  "tokenFromClient_tr k res es tok' \<Longrightarrow> repo k = None \<Longrightarrow> stores_under acq h es"
  by (erule tokenFromClient_tr.cases) (auto dest: storeToken_tr_no_repo)

lemma getToken_locked_tr_stores:
  "getToken_locked_tr k r res es tok' \<Longrightarrow> stores_under acq True es \<and> held_after acq h es = h"
  by (erule getToken_locked_tr.cases) (simp_all add: tokenFromClient_tr_stores)

lemma getToken_tr_stores:
  assumes "getToken_tr k res es tok'" and "\<And>l. Lock_call l \<in> set es \<Longrightarrow> acq l"
  shows "stores_under acq False es"
  using assms
proof (cases rule: getToken_tr.cases)
  case (gt_fast tk)
  then show ?thesis by (simp add: tokenFromRepo_tr_stores)
next
  case gt_alone
  then show ?thesis by (simp add: tokenFromClient_tr_alone)
next
  case (gt_locked r es1 es2 l u)
  then have "acq l" using assms(2) by simp
  then show ?thesis
    using gt_locked
    by (simp add: stores_under_append tokenFromRepo_tr_stores getToken_locked_tr_stores)
qed

lemma storeToken_tr_events:
  "storeToken_tr k t es \<Longrightarrow> x \<in> set es \<Longrightarrow>
     (\<exists>e. x = StoreToken_call t e) \<or> (\<exists>e m. x = Log_error e m)"
  by (erule storeToken_tr.cases) auto

lemma tokenFromRepo_tr_events:
  "tokenFromRepo_tr k res es \<Longrightarrow> x \<in> set es \<Longrightarrow>
     (\<exists>e. x = Lock_call e) \<or> (\<exists>e. x = Unlock_call e) \<or>
     (\<exists>t e. x = GetToken_call t e \<and> (if e = None then res = t else res = None))"
  by (erule tokenFromRepo_tr.cases) auto

lemma tokenFromClient_tr_events:
  "tokenFromClient_tr k res es tok' \<Longrightarrow> x \<in> set es \<Longrightarrow>
     (\<exists>t e. x = NewToken_call t e) \<or> (\<exists>t e. x = StoreToken_call t e) \<or>
     (\<exists>e m. x = Log_error e m)"
  by (erule tokenFromClient_tr.cases) (auto dest: storeToken_tr_events)

lemma getToken_tr_adopts:
  assumes "getToken_tr k res es tok'" and "GetToken_call (Some tk) None \<in> set es"
  shows "res = Return (Some tk, None) \<and> tok' = token k \<and>
         (\<forall>t e. NewToken_call t e \<notin> set es) \<and> (\<forall>t e. StoreToken_call t e \<notin> set es)"
  using assms
proof (cases rule: getToken_tr.cases)
  case (gt_fast tk')
  then show ?thesis using assms(2) by (auto elim!: tokenFromRepo_tr.cases)
next
  case gt_alone
  then show ?thesis using assms(2) by (auto dest: tokenFromClient_tr_events)
next
  case (gt_locked r es1 es2 l u)
  have "GetToken_call (Some tk) None \<notin> set es1"
    using gt_locked(3) by (auto elim!: tokenFromRepo_tr.cases)
  then have "GetToken_call (Some tk) None \<in> set es2"
    using assms(2) gt_locked(1) by auto
  with gt_locked(4) have "res = Return (Some tk, None) \<and> tok' = token k \<and> es2 = [GetToken_call (Some tk) None]"
    by (auto elim!: getToken_locked_tr.cases dest: tokenFromClient_tr_events)
  then show ?thesis using gt_locked(1,3) by (auto elim!: tokenFromRepo_tr.cases)
qed


lemma Token_after_cached:
  "token (keeper s) = Some t \<Longrightarrow> Token clock s = Token_refresh clock s"
  by (simp add: Token_def Token_issue_def)

lemma Token_after_adopt:
  "token (keeper s) = None \<Longrightarrow> fst (getToken s) = Return (Some tk, e) \<Longrightarrow>
     Token clock s = Token_refresh clock (set_token (Some tk) (snd (getToken s)))"
  by (simp add: Token_def Token_issue_def split_beta)

lemma Token_refresh_tr_events:
  "Token_refresh_tr k v res es tok' \<Longrightarrow> x \<in> set es \<Longrightarrow>
     (\<exists>e. x = Log_warn (token k) e) \<or> (\<exists>t e. x = RefreshToken_call (token k) t e) \<or>
     (\<exists>e. x = StoreToken_call tok' e) \<or> (\<exists>e m. x = Log_error e m)"
  by (erule Token_refresh_tr.cases) (auto dest: storeToken_tr_events)

section \<open>Further facts about the runs\<close>

lemma validateToken_iff:
  "(validateToken now (Some t) = None) = (Validate t = None \<and> now \<le> Expires t)"
  by (auto simp: validateToken_def split: option.splits)

lemma Token_refresh_unchanged_iff:
  "(Token_refresh clock s = (Return (token (keeper s)), s)) =
     (validateToken (clock (world s)) (token (keeper s)) = None)"
proof
  assume a: "Token_refresh clock s = (Return (token (keeper s)), s)"
  obtain es where es: "calls (snd (Token_refresh clock s)) = calls s @ es"
      "Token_refresh_tr (keeper s) (validateToken (clock (world s)) (token (keeper s)))
         (fst (Token_refresh clock s)) es (token (keeper (snd (Token_refresh clock s))))"
    using Token_refresh_sound by blast
  have e: "es = []" using es(1) a by simp
  show "validateToken (clock (world s)) (token (keeper s)) = None"
    using es(2) e a by (cases rule: Token_refresh_tr.cases) auto
next
  assume "validateToken (clock (world s)) (token (keeper s)) = None"
  then show "Token_refresh clock s = (Return (token (keeper s)), s)"
    by (simp add: Token_refresh_def)
qed

lemma Token_refresh_calls_iff:
  assumes "logger (keeper s)" and "client (keeper s) \<noteq> None"
  shows "(\<exists>tok e. RefreshToken_call (token (keeper s)) tok e
            \<in> set (new_calls s (snd (Token_refresh clock s)))) =
         (validateToken (clock (world s)) (token (keeper s)) \<noteq> None)"
proof -
  obtain es where es: "calls (snd (Token_refresh clock s)) = calls s @ es"
      "Token_refresh_tr (keeper s) (validateToken (clock (world s)) (token (keeper s)))
         (fst (Token_refresh clock s)) es (token (keeper (snd (Token_refresh clock s))))"
    using Token_refresh_sound by blast
  have nc: "new_calls s (snd (Token_refresh clock s)) = es" using es(1) by simp
  show ?thesis
    unfolding nc using es(2) assms
    by (cases rule: Token_refresh_tr.cases) auto
qed

lemma tokenFromClient_tr_failed:
  "tokenFromClient_tr k res es tok' \<Longrightarrow> NewToken_call t (Some E) \<in> set es \<Longrightarrow>
     res = Return (None, Some E) \<and> tok' = token k"
  by (erule tokenFromClient_tr.cases) (auto dest: storeToken_tr_events)

lemma getToken_locked_tr_failed:
  "getToken_locked_tr k r res es tok' \<Longrightarrow> NewToken_call t (Some E) \<in> set es \<Longrightarrow>
     res = Return (None, Some E) \<and> tok' = token k"
  by (erule getToken_locked_tr.cases) (auto dest: tokenFromClient_tr_failed)

lemma getToken_tr_failed:
  "getToken_tr k res es tok' \<Longrightarrow> NewToken_call t (Some E) \<in> set es \<Longrightarrow>
     res = Return (None, Some E) \<and> tok' = token k"
  by (erule getToken_tr.cases)
     (auto dest: tokenFromClient_tr_failed getToken_locked_tr_failed tokenFromRepo_tr_events)

lemma getToken_locked_tr_events:
  "getToken_locked_tr k r res es tok' \<Longrightarrow> x \<in> set es \<Longrightarrow>
     (\<exists>t e. x = GetToken_call t e) \<or> (\<exists>t e. x = NewToken_call t e) \<or>
     (\<exists>t e. x = StoreToken_call t e) \<or> (\<exists>e m. x = Log_error e m)"
  by (erule getToken_locked_tr.cases) (auto dest: tokenFromClient_tr_events)

lemma getToken_tr_events:
  "getToken_tr k res es tok' \<Longrightarrow> x \<in> set es \<Longrightarrow>
     (\<exists>e. x = Lock_call e) \<or> (\<exists>e. x = Unlock_call e) \<or>
     (\<exists>t e. x = GetToken_call t e) \<or> (\<exists>t e. x = NewToken_call t e) \<or>
     (\<exists>t e. x = StoreToken_call t e) \<or> (\<exists>e m. x = Log_error e m)"
  by (erule getToken_tr.cases)
     (auto dest: tokenFromClient_tr_events getToken_locked_tr_events tokenFromRepo_tr_events)

lemma Token_issue_tr_events:
  "Token_issue_tr k r es tok' \<Longrightarrow> x \<in> set es \<Longrightarrow>
     (\<exists>e. x = Lock_call e) \<or> (\<exists>e. x = Unlock_call e) \<or>
     (\<exists>t e. x = GetToken_call t e) \<or> (\<exists>t e. x = NewToken_call t e) \<or>
     (\<exists>t e. x = StoreToken_call t e) \<or> (\<exists>e m. x = Log_error e m)"
  by (erule Token_issue_tr.cases) (auto dest: getToken_tr_events split: if_splits)

lemma Token_issue_tr_failed:
  assumes "Token_issue_tr k r es tok'" and "NewToken_call t (Some E) \<in> set es"
  shows "(\<exists>now. r = Some (Return (Some (newInvalidToken now
            (Some (Errorf ErrClientNewTokenFailed (Some E))))))) \<and>
         token k = None \<and> tok' = None"
  using assms
  by (cases rule: Token_issue_tr.cases) (auto dest: getToken_tr_failed split: if_splits)

lemma Token_issue_tr_goes_on:
  "Token_issue_tr k None es tok1 \<Longrightarrow> tok1 \<noteq> None \<and> (token k = None \<or> token k = tok1)"
  by (erule Token_issue_tr.cases) auto

lemma Token_refresh_tr_failed:
  assumes "Token_refresh_tr k v res es tok'" and "RefreshToken_call old tok (Some E) \<in> set es"
  shows "(\<exists>now. res = Return (Some (newInvalidToken now
            (Some (Errorf ErrClientRefreshTokenFailed (Some E)))))) \<and>
         tok' = token k \<and> old = token k"
  using assms
  by (cases rule: Token_refresh_tr.cases) (auto dest: storeToken_tr_events)

lemma Token_tr_issue_failure:
  assumes "Token_tr k res es tok'" and "NewToken_call t (Some E) \<in> set es"
  shows "(\<exists>now. res = Return (Some (newInvalidToken now
            (Some (Errorf ErrClientNewTokenFailed (Some E)))))) \<and>
         token k = None \<and> tok' = None"
  using assms
proof (cases rule: Token_tr.cases)
  case tt_early
  then show ?thesis using assms(2) Token_issue_tr_failed by fastforce
next
  case (tt_on es1 tok1 now es2)
  have "NewToken_call t (Some E) \<notin> set es2"
    using Token_refresh_tr_events [OF tt_on(3)] by fastforce
  then have "NewToken_call t (Some E) \<in> set es1" using assms(2) tt_on(1) by simp
  then show ?thesis using Token_issue_tr_failed [OF tt_on(2)] by blast
qed

lemma Token_tr_refresh_failure:
  assumes "Token_tr k res es tok'" and "RefreshToken_call old tok (Some E) \<in> set es"
  shows "(\<exists>now. res = Return (Some (newInvalidToken now
            (Some (Errorf ErrClientRefreshTokenFailed (Some E)))))) \<and>
         tok' = old \<and> old \<noteq> None \<and> (token k = None \<or> token k = old)"
  using assms
proof (cases rule: Token_tr.cases)
  case tt_early
  then show ?thesis using assms(2) Token_issue_tr_events by fastforce
next
  case (tt_on es1 tok1 now es2)
  have "RefreshToken_call old tok (Some E) \<notin> set es1"
    using Token_issue_tr_events [OF tt_on(2)] by fastforce
  then have "RefreshToken_call old tok (Some E) \<in> set es2" using assms(2) tt_on(1) by simp
  then show ?thesis
    using Token_refresh_tr_failed [OF tt_on(3)] Token_issue_tr_goes_on [OF tt_on(2)] by simp
qed

lemma invalid_token_reports:
  "String (newInvalidToken now (Some (Errorf w (Some E)))) = [] \<and>
   Expires (newInvalidToken now (Some (Errorf w (Some E)))) =
     Created (newInvalidToken now (Some (Errorf w (Some E)))) \<and>
   Validate (newInvalidToken now (Some (Errorf w (Some E)))) = Some (Errorf w (Some E)) \<and>
   Is (Errorf w (Some E)) w \<and>
   Error (Errorf w (Some E)) = Error w @ '': '' @ Error E"
  by (cases w) (simp_all add: newInvalidToken_def)

lemma sim_keeper:
  "sim f s s' \<Longrightarrow> token (keeper s') = token (keeper s) \<and> client (keeper s') = client (keeper s) \<and>
     logger (keeper s') = logger (keeper s) \<and>
     repo (keeper s') = map_option (remapRepo f) (repo (keeper s))"
  by (simp add: sim_def)

lemma sim_call_Lock:
  "sim f s s' \<Longrightarrow> sim f (snd (call_Lock r s)) (snd (call_Lock (remapRepo f r) s'))"
  by (simp add: sim_def remapRepo_def split_beta)

lemma sim_call_Unlock:
  "sim f s s' \<Longrightarrow> sim f (snd (call_Unlock r s)) (snd (call_Unlock (remapRepo f r) s'))"
  by (simp add: sim_def remapRepo_def split_beta)

lemma sim_call_GetToken:
  "sim f s s' \<Longrightarrow>
     sim f (snd (call_GetToken r s)) (snd (call_GetToken (remapRepo f r) s')) \<and>
     fst (fst (call_GetToken (remapRepo f r) s')) = fst (fst (call_GetToken r s)) \<and>
     snd (fst (call_GetToken (remapRepo f r) s')) = map_option f (snd (fst (call_GetToken r s)))"
  by (simp add: sim_def remapRepo_def split_beta)

lemma sim_call_StoreToken:
  "sim f s s' \<Longrightarrow>
     sim f (snd (call_StoreToken r t s)) (snd (call_StoreToken (remapRepo f r) t s')) \<and>
     fst (call_StoreToken (remapRepo f r) t s') = map_option f (fst (call_StoreToken r t s))"
  by (simp add: sim_def remapRepo_def split_beta call_StoreToken_def)

lemma sim_call_NewToken:
  "sim f s s' \<Longrightarrow>
     sim f (snd (call_NewToken c s)) (snd (call_NewToken c s')) \<and>
     fst (call_NewToken c s') = fst (call_NewToken c s)"
  by (simp add: sim_def)

lemma sim_call_RefreshToken:
  "sim f s s' \<Longrightarrow>
     sim f (snd (call_RefreshToken c old s)) (snd (call_RefreshToken c old s')) \<and>
     fst (call_RefreshToken c old s') = fst (call_RefreshToken c old s)"
  by (simp add: sim_def)

lemma sim_logError: "sim f s s' \<Longrightarrow> sim f (logError e m s) (logError e' m' s')"
  by (simp add: sim_def)

lemma sim_set_token: "sim f s s' \<Longrightarrow> sim f (set_token t s) (set_token t s')"
  by (simp add: sim_def)

lemma sim_storeToken: "sim f s s' \<Longrightarrow> sim f (storeToken t s) (storeToken t s')"
proof (cases "repo (keeper s)")
  case None
  assume "sim f s s'"
  then show ?thesis using None sim_keeper [of f s s'] by (simp add: storeToken_def sim_set_token)
next
  case (Some r)
  assume a: "sim f s s'"
  then have r': "repo (keeper s') = Some (remapRepo f r)" using Some by (simp add: sim_def)
  show ?thesis
    using Some r' sim_call_StoreToken [OF a, of r t]
    by (simp add: storeToken_def split_beta sim_set_token sim_logError)
qed

lemma sim_tokenFromRepo:
  assumes "sim f s s'"
  shows "fst (tokenFromRepo s') = fst (tokenFromRepo s) \<and>
         sim f (snd (tokenFromRepo s)) (snd (tokenFromRepo s'))"
proof (cases "repo (keeper s)")
  case None
  then show ?thesis using assms sim_keeper [OF assms] by (simp add: tokenFromRepo_def)
next
  case (Some r)
  have r': "repo (keeper s') = Some (remapRepo f r)" using assms Some by (simp add: sim_def)
  note l = sim_call_Lock [OF assms, of r]
  note g = sim_call_GetToken [OF l, of r]
  note u = sim_call_Unlock [OF conjunct1 [OF g], of r]
  show ?thesis
    using Some r' g u by (simp add: tokenFromRepo_def split_beta)
qed

lemma sim_tokenFromClient:
  assumes "sim f s s'"
  shows "fst (tokenFromClient s') = fst (tokenFromClient s) \<and>
         sim f (snd (tokenFromClient s)) (snd (tokenFromClient s'))"
proof (cases "client (keeper s)")
  case None
  then show ?thesis using assms sim_keeper [OF assms] by (simp add: tokenFromClient_def)
next
  case (Some c)
  have c': "client (keeper s') = Some c" using assms Some by (simp add: sim_def)
  note n = sim_call_NewToken [OF assms, of c]
  note st = sim_storeToken [OF conjunct1 [OF n]]
  show ?thesis
    using Some c' n st by (simp add: tokenFromClient_def split_beta split: option.splits)
qed

lemma sim_getToken_locked:
  assumes "sim f s s'"
  shows "fst (getToken_locked (remapRepo f r) s') = fst (getToken_locked r s) \<and>
         sim f (snd (getToken_locked r s)) (snd (getToken_locked (remapRepo f r) s'))"
proof -
  note g = sim_call_GetToken [OF assms, of r]
  note c = sim_tokenFromClient [OF conjunct1 [OF g]]
  show ?thesis
    using assms sim_keeper [OF assms] g c
    by (simp add: getToken_locked_def split_beta)
qed

lemma sim_getToken:
  assumes "sim f s s'"
  shows "fst (getToken s') = fst (getToken s) \<and> sim f (snd (getToken s)) (snd (getToken s'))"
proof -
  note r = sim_tokenFromRepo [OF assms]
  define s1 where "s1 = snd (tokenFromRepo s)"
  define s1' where "s1' = snd (tokenFromRepo s')"
  have s1: "sim f s1 s1'" and f1: "fst (tokenFromRepo s') = fst (tokenFromRepo s)"
    using r by (simp_all add: s1_def s1'_def)
  show ?thesis
  proof (cases "fst (tokenFromRepo s)")
    case (Some tk)
    then show ?thesis using f1 s1 by (simp add: getToken_def split_beta s1_def s1'_def)
  next
    case None
    show ?thesis
    proof (cases "repo (keeper s1)")
      case rNone: None
      then have "repo (keeper s1') = None" using s1 by (simp add: sim_def)
      then show ?thesis
        using None f1 rNone sim_tokenFromClient [OF s1]
        by (simp add: getToken_def split_beta s1_def s1'_def)
    next
      case (Some r)
      then have r': "repo (keeper s1') = Some (remapRepo f r)" using s1 by (simp add: sim_def)
      note l = sim_call_Lock [OF s1, of r]
      note g = sim_getToken_locked [OF l, of r]
      note u = sim_call_Unlock [OF conjunct2 [OF g], of r]
      show ?thesis
        using None f1 Some r' g u
        by (simp add: getToken_def split_beta s1_def s1'_def)
    qed
  qed
qed

lemma sim_Token_issue:
  assumes "sim f s s'"
  shows "issue_result (Token_issue clock s') = issue_result (Token_issue clock s) \<and>
         sim f (issue_state (Token_issue clock s)) (issue_state (Token_issue clock s'))"
proof -
  note g = sim_getToken [OF assms]
  have w: "world (snd (getToken s')) = world (snd (getToken s))"
    using g by (simp add: sim_def)
  show ?thesis
    using assms sim_keeper [OF assms] g w
    by (auto simp: Token_issue_def issue_result_def issue_state_def split_beta Let_def
          sim_logError sim_set_token split: outcome.splits option.splits)
qed

lemma Token_refresh_invalid:
  assumes "validateToken (clock (world s)) (token (keeper s)) = Some verr"
    and "logger (keeper s)" and "client (keeper s) = Some c"
    and "mid = snd (call_RefreshToken c (token (keeper s))
                 (s\<lparr>calls := calls s @ [Log_warn (token (keeper s)) (Some verr)]\<rparr>))"
    and "res = fst (RefreshToken c (token (keeper s)) (world s))"
  shows "Token_refresh clock s =
     (if snd res \<noteq> None
      then (Return (Some (newInvalidToken (clock (world mid))
              (Some (Errorf ErrClientRefreshTokenFailed (snd res))))),
            logError (snd res) (Error ErrClientRefreshTokenFailed) mid)
      else (Return (fst res), storeToken (fst res) mid))"
  using assms by (simp add: Token_refresh_def Let_def split_beta)

lemma sim_Token_refresh:
  assumes "sim f s s'"
  shows "fst (Token_refresh clock s') = fst (Token_refresh clock s) \<and>
         sim f (snd (Token_refresh clock s)) (snd (Token_refresh clock s'))"
proof (cases "validateToken (clock (world s)) (token (keeper s))")
  case None
  then show ?thesis using assms sim_keeper [OF assms]
    by (simp add: Token_refresh_def sim_def)
next
  case (Some verr)
  have v': "validateToken (clock (world s')) (token (keeper s')) = Some verr"
    using Some assms by (simp add: sim_def)
  show ?thesis
  proof (cases "logger (keeper s) \<and> client (keeper s) \<noteq> None")
    case False
    then show ?thesis using Some v' assms sim_keeper [OF assms]
      by (auto simp: Token_refresh_def Let_def sim_def)
  next
    case True
    then obtain c where c: "client (keeper s) = Some c" "logger (keeper s)" by auto
    have c': "client (keeper s') = Some c" "logger (keeper s')"
      and k': "token (keeper s') = token (keeper s)" and w': "world s' = world s"
      using c assms by (simp_all add: sim_def)
    define s1 where "s1 = s\<lparr>calls := calls s @ [Log_warn (token (keeper s)) (Some verr)]\<rparr>"
    define s1' where "s1' = s'\<lparr>calls := calls s' @ [Log_warn (token (keeper s)) (Some verr)]\<rparr>"
    define mid where "mid = snd (call_RefreshToken c (token (keeper s)) s1)"
    define mid' where "mid' = snd (call_RefreshToken c (token (keeper s)) s1')"
    define res where "res = fst (RefreshToken c (token (keeper s)) (world s))"
    have s1: "sim f s1 s1'" using assms by (simp add: sim_def s1_def s1'_def)
    have m: "sim f mid mid'"
      using sim_call_RefreshToken [OF s1, of c "token (keeper s)"] by (simp add: mid_def mid'_def)
    then have wm: "world mid' = world mid" by (simp add: sim_def)
    have a: "Token_refresh clock s =
       (if snd res \<noteq> None
        then (Return (Some (newInvalidToken (clock (world mid))
                (Some (Errorf ErrClientRefreshTokenFailed (snd res))))),
              logError (snd res) (Error ErrClientRefreshTokenFailed) mid)
        else (Return (fst res), storeToken (fst res) mid))"
      using Some c by (intro Token_refresh_invalid) (simp_all add: mid_def s1_def res_def)
    have b: "Token_refresh clock s' =
       (if snd res \<noteq> None
        then (Return (Some (newInvalidToken (clock (world mid'))
                (Some (Errorf ErrClientRefreshTokenFailed (snd res))))),
              logError (snd res) (Error ErrClientRefreshTokenFailed) mid')
        else (Return (fst res), storeToken (fst res) mid'))"
      using v' c' k' w' by (intro Token_refresh_invalid) (simp_all add: mid'_def s1'_def res_def)
    show ?thesis
      unfolding a b using m wm by (simp add: sim_logError sim_storeToken)
  qed
qed

lemma sim_Token:
  assumes "sim f s s'"
  shows "fst (Token clock s') = fst (Token clock s) \<and>
         sim f (snd (Token clock s)) (snd (Token clock s'))"
  using sim_Token_issue [OF assms, of clock]
    sim_Token_refresh [of f "issue_state (Token_issue clock s)" "issue_state (Token_issue clock s')" clock]
  by (simp add: Token_unfold split: option.splits)

lemma sim_remap_errors: "sim f s (remap_errors f s)"
  by (simp add: sim_def remap_errors_def)

lemma storeToken_tr_no_NewToken: "storeToken_tr k t es \<Longrightarrow> filter is_NewToken_call es = []"
  by (erule storeToken_tr.cases) simp_all

lemma tokenFromRepo_tr_no_NewToken:
  "tokenFromRepo_tr k res es \<Longrightarrow> filter is_NewToken_call es = []"
  by (erule tokenFromRepo_tr.cases) simp_all

lemma Token_refresh_tr_no_NewToken:
  "Token_refresh_tr k v res es tok' \<Longrightarrow> filter is_NewToken_call es = []"
  by (erule Token_refresh_tr.cases) (simp_all add: storeToken_tr_no_NewToken)

lemma tokenFromClient_tr_once:
  "tokenFromClient_tr k res es tok' \<Longrightarrow> client k = Some c \<Longrightarrow>
     length (filter is_NewToken_call es) = 1 \<and>
     (\<forall>tk. NewToken_call (Some tk) None \<in> set es \<and> Validate tk = None \<longrightarrow>
        res = Return (Some tk, None))"
  by (erule tokenFromClient_tr.cases)
     (auto simp: storeToken_tr_no_NewToken dest: storeToken_tr_events)

lemma getToken_tr_no_repo_token:
  assumes "getToken_tr k res es tok'" and "client k = Some c" and "token k = None"
    and "\<forall>t. GetToken_call t None \<notin> set es"
  shows "length (filter is_NewToken_call es) = 1 \<and>
         (\<forall>tk. NewToken_call (Some tk) None \<in> set es \<and> Validate tk = None \<longrightarrow>
            res = Return (Some tk, None))"
  using assms(1)
proof (cases rule: getToken_tr.cases)
  case (gt_fast tk)
  then show ?thesis using assms(4) by (auto elim!: tokenFromRepo_tr.cases)
next
  case gt_alone
  then show ?thesis using tokenFromClient_tr_once [OF _ assms(2)] by simp
next
  case (gt_locked r es1 es2 l u)
  have e1: "filter is_NewToken_call es1 = []"
    using gt_locked(3) by (rule tokenFromRepo_tr_no_NewToken)
  then have n1: "\<forall>tk. NewToken_call (Some tk) None \<notin> set es1"
    by (auto simp: filter_empty_conv)
  from gt_locked(4) show ?thesis
  proof (cases rule: getToken_locked_tr.cases)
    case (gl_cached tk)
    then show ?thesis using assms(3) by simp
  next
    case (gl_hit w t)
    then show ?thesis using assms(4) gt_locked(1) by auto
  next
    case (gl_miss w t e es3)
    then show ?thesis
      using tokenFromClient_tr_once [OF gl_miss(5) assms(2)] e1 n1 gt_locked(1) by auto
  qed
qed

lemma Token_extends_getToken:
  assumes "token (keeper s) = None"
  shows "\<exists>es2. calls (snd (Token clock s)) = calls (snd (getToken s)) @ es2 \<and>
               filter is_NewToken_call es2 = []"
proof (cases "fst (getToken s)")
  case Panic
  then have "Token clock s = (Panic, snd (getToken s))"
    using assms by (simp add: Token_def Token_issue_def split_beta)
  then show ?thesis by simp
next
  case (Return p)
  obtain t err where p: "p = (t, err)" by (cases p)
  show ?thesis
  proof (cases t)
    case None
    then have "snd (Token clock s) = logError err (Error ErrClientNewTokenFailed) (snd (getToken s))"
      using assms Return p by (simp add: Token_def Token_issue_def split_beta Let_def)
    then show ?thesis by simp
  next
    case (Some tk)
    define s2 where "s2 = set_token (Some tk) (snd (getToken s))"
    have t: "Token clock s = Token_refresh clock s2"
      using assms Return p Some by (simp add: Token_after_adopt s2_def)
    obtain es3 where es3: "calls (snd (Token_refresh clock s2)) = calls s2 @ es3"
      "Token_refresh_tr (keeper s2) (validateToken (clock (world s2)) (token (keeper s2)))
         (fst (Token_refresh clock s2)) es3 (token (keeper (snd (Token_refresh clock s2))))"
      using Token_refresh_sound by blast
    show ?thesis
      using es3(1) Token_refresh_tr_no_NewToken [OF es3(2)] t by (simp add: s2_def)
  qed
qed








lemma tokenFromClient_tr_self_invalid:
  "tokenFromClient_tr k res es tok' \<Longrightarrow> NewToken_call (Some tk) None \<in> set es \<Longrightarrow>
     Validate tk = Some x \<Longrightarrow>
     res = Return (Some tk, None) \<and> es = [NewToken_call (Some tk) None] \<and> tok' = token k \<and>
     client k \<noteq> None"
  by (erule tokenFromClient_tr.cases) (auto dest: storeToken_tr_events)

lemma getToken_locked_tr_self_invalid:
  "getToken_locked_tr k r res es tok' \<Longrightarrow> NewToken_call (Some tk) None \<in> set es \<Longrightarrow>
     Validate tk = Some x \<Longrightarrow>
     res = Return (Some tk, None) \<and> (\<forall>t e. StoreToken_call t e \<notin> set es) \<and> tok' = token k \<and>
     client k \<noteq> None"
  by (erule getToken_locked_tr.cases) (auto dest: tokenFromClient_tr_self_invalid)

lemma getToken_tr_self_invalid:
  assumes "getToken_tr k res es tok'" and "NewToken_call (Some tk) None \<in> set es"
    and "Validate tk = Some x"
  shows "res = Return (Some tk, None) \<and> (\<forall>t e. StoreToken_call t e \<notin> set es) \<and>
         tok' = token k \<and> client k \<noteq> None"
  using assms
proof (cases rule: getToken_tr.cases)
  case (gt_fast tk')
  then show ?thesis using assms(2) by (auto dest: tokenFromRepo_tr_events)
next
  case gt_alone
  then show ?thesis using assms(2,3) by (auto dest: tokenFromClient_tr_self_invalid)
next
  case (gt_locked r es1 es2 l u)
  have a: "\<forall>t e. NewToken_call t e \<notin> set es1 \<and> StoreToken_call t e \<notin> set es1"
    using tokenFromRepo_tr_events [OF gt_locked(3)] by fastforce
  then have "NewToken_call (Some tk) None \<in> set es2" using assms(2) gt_locked(1) by auto
  then show ?thesis
    using getToken_locked_tr_self_invalid [OF gt_locked(4) _ assms(3)] a gt_locked(1) by auto
qed

section \<open>Where a run leaves the lock\<close>

text \<open>
  \<open>holds\<close> reads off the world whether the distributed lock is held. The lemmas follow it
  through the functions of the keeper, for collaborators of which only \<^verbatim>\<open>Lock\<close> takes the
  lock and an \<^verbatim>\<open>Unlock\<close> that returns nil gives it up.
\<close>

lemma call_Unlock_result: "fst (call_Unlock r s) = fst (Unlock r (world s))"
  by (simp add: call_Unlock_def split_beta)

lemma storeToken_world:
  "world (storeToken t s) =
     (case repo (keeper s) of None \<Rightarrow> world s | Some r \<Rightarrow> snd (StoreToken r t (world s)))"
  by (simp add: storeToken_def split_beta split: option.splits)

lemma storeToken_released:
  assumes "\<And>r t w. repo (keeper s) = Some r \<Longrightarrow> \<not> holds w \<Longrightarrow> \<not> holds (snd (StoreToken r t w))"
    and "\<not> holds (world s)"
  shows "\<not> holds (world (storeToken t s))"
  using assms by (simp add: storeToken_world split: option.splits)

lemma tokenFromClient_released:
  assumes st: "\<And>r t w. repo (keeper s) = Some r \<Longrightarrow> \<not> holds w \<Longrightarrow>
                 \<not> holds (snd (StoreToken r t w))"
    and nw: "\<And>c w. client (keeper s) = Some c \<Longrightarrow> \<not> holds w \<Longrightarrow> \<not> holds (snd (NewToken c w))"
    and free: "\<not> holds (world s)"
  shows "\<not> holds (world (snd (tokenFromClient s)))"
proof (cases "client (keeper s)")
  case None
  then show ?thesis using free by (simp add: tokenFromClient_def)
next
  case (Some c)
  define s1 where "s1 = snd (call_NewToken c s)"
  have w1: "\<not> holds (world s1)" using nw [OF Some free] by (simp add: s1_def)
  have k1: "keeper s1 = keeper s" by (simp add: s1_def)
  have w2: "\<not> holds (world (storeToken t s1))" for t
  proof (rule storeToken_released)
    show "\<not> holds (world s1)" by (rule w1)
  next
    fix r t' w assume "repo (keeper s1) = Some r" "\<not> holds w"
    then show "\<not> holds (snd (StoreToken r t' w))" using st k1 by simp
  qed
  have "snd (tokenFromClient s) = s1 \<or> (\<exists>t. snd (tokenFromClient s) = storeToken t s1)"
    using Some by (auto simp: tokenFromClient_def split_beta s1_def split: option.splits)
  then show ?thesis using w1 w2 by auto
qed

lemma getToken_ends_with_Unlock:
  assumes "repo (keeper s) = Some r"
  shows "\<exists>s' xs. snd (getToken s) = snd (call_Unlock r s') \<and> calls s' = calls s @ xs"
proof -
  define s2 where "s2 = snd (call_GetToken r (snd (call_Lock r s)))"
  define s1 where "s1 = snd (tokenFromRepo s)"
  have c2: "calls s2 = calls s @ [Lock_call (fst (call_Lock r s)),
              GetToken_call (fst (fst (call_GetToken r (snd (call_Lock r s)))))
                (snd (fst (call_GetToken r (snd (call_Lock r s)))))]"
    by (simp add: s2_def)
  have r1: "s1 = snd (call_Unlock r s2)"
    using assms by (simp add: tokenFromRepo_def split_beta s1_def s2_def)
  show ?thesis
  proof (cases "fst (tokenFromRepo s)")
    case (Some tk)
    then have "snd (getToken s) = s1" by (simp add: getToken_def split_beta s1_def)
    then show ?thesis using r1 c2 by blast
  next
    case None
    define s3 where "s3 = snd (getToken_locked r (snd (call_Lock r s1)))"
    obtain es1 where es1: "calls s1 = calls s @ es1"
      using tokenFromRepo_sound [of s] unfolding s1_def by blast
    obtain es2 where es2: "calls s3 = calls (snd (call_Lock r s1)) @ es2"
      using getToken_locked_sound [of r "snd (call_Lock r s1)"] unfolding s3_def by blast
    have c3: "calls s3 = calls s @ (es1 @ Lock_call (fst (call_Lock r s1)) # es2)"
      using es1 es2 by simp
    have "snd (getToken s) = snd (call_Unlock r s3)"
      using None assms by (simp add: getToken_def split_beta s1_def s3_def)
    then show ?thesis using c3 by blast
  qed
qed

lemma getToken_released:
  assumes ul: "\<And>r w. repo (keeper s) = Some r \<Longrightarrow> fst (Unlock r w) = None \<Longrightarrow>
                 \<not> holds (snd (Unlock r w))"
    and st: "\<And>r t w. repo (keeper s) = Some r \<Longrightarrow> \<not> holds w \<Longrightarrow>
                 \<not> holds (snd (StoreToken r t w))"
    and nw: "\<And>c w. client (keeper s) = Some c \<Longrightarrow> \<not> holds w \<Longrightarrow> \<not> holds (snd (NewToken c w))"
    and free: "\<not> holds (world s)"
    and nf: "\<forall>e. Unlock_call (Some e) \<notin> set (new_calls s (snd (getToken s)))"
  shows "\<not> holds (world (snd (getToken s)))"
proof (cases "repo (keeper s)")
  case None
  then have "tokenFromRepo s = (None, s)" by (simp add: tokenFromRepo_def)
  then have "getToken s = tokenFromClient s" using None by (simp add: getToken_def)
  then show ?thesis using tokenFromClient_released [of s holds, OF st nw free] by simp
next
  case (Some r)
  obtain s' xs where s': "snd (getToken s) = snd (call_Unlock r s')" "calls s' = calls s @ xs"
    using getToken_ends_with_Unlock [OF Some] by blast
  have "calls (snd (getToken s)) = calls s @ (xs @ [Unlock_call (fst (Unlock r (world s')))])"
    using s' by (simp add: call_Unlock_result)
  then have "new_calls s (snd (getToken s)) = xs @ [Unlock_call (fst (Unlock r (world s')))]"
    by (rule new_calls_append)
  then have "fst (Unlock r (world s')) = None"
    using nf by (cases "fst (Unlock r (world s'))") auto
  then have "\<not> holds (snd (Unlock r (world s')))" using ul [OF Some] by simp
  then show ?thesis using s'(1) by simp
qed

lemma Token_refresh_released:
  assumes st: "\<And>r t w. repo (keeper s) = Some r \<Longrightarrow> \<not> holds w \<Longrightarrow>
                 \<not> holds (snd (StoreToken r t w))"
    and rf: "\<And>c t w. client (keeper s) = Some c \<Longrightarrow> \<not> holds w \<Longrightarrow>
                 \<not> holds (snd (RefreshToken c t w))"
    and free: "\<not> holds (world s)"
  shows "\<not> holds (world (snd (Token_refresh clock s)))"
proof (cases "validateToken (clock (world s)) (token (keeper s))")
  case None
  then show ?thesis using free by (simp add: Token_refresh_def)
next
  case (Some verr)
  show ?thesis
  proof (cases "logger (keeper s)")
    case False
    then show ?thesis using Some free by (simp add: Token_refresh_def)
  next
    case True
    show ?thesis
    proof (cases "client (keeper s)")
      case None
      then show ?thesis using Some True free by (simp add: Token_refresh_def Let_def)
    next
      case c: (Some c)
      define mid where "mid = snd (call_RefreshToken c (token (keeper s))
                 (s\<lparr>calls := calls s @ [Log_warn (token (keeper s)) (Some verr)]\<rparr>))"
      define res where "res = fst (RefreshToken c (token (keeper s)) (world s))"
      have eq: "Token_refresh clock s =
         (if snd res \<noteq> None
          then (Return (Some (newInvalidToken (clock (world mid))
                  (Some (Errorf ErrClientRefreshTokenFailed (snd res))))),
                logError (snd res) (Error ErrClientRefreshTokenFailed) mid)
          else (Return (fst res), storeToken (fst res) mid))"
        using Some True c by (intro Token_refresh_invalid) (simp_all add: mid_def res_def)
      have wm: "\<not> holds (world mid)" using rf [OF c free] by (simp add: mid_def)
      have km: "keeper mid = keeper s" by (simp add: mid_def)
      have ws: "\<not> holds (world (storeToken (fst res) mid))"
      proof (rule storeToken_released)
        show "\<not> holds (world mid)" by (rule wm)
      next
        fix r t' w assume "repo (keeper mid) = Some r" "\<not> holds w"
        then show "\<not> holds (snd (StoreToken r t' w))" using st km by simp
      qed
      show ?thesis unfolding eq using wm ws by simp
    qed
  qed
qed

lemma Token_released:
  assumes ul: "\<And>r w. repo (keeper s) = Some r \<Longrightarrow> fst (Unlock r w) = None \<Longrightarrow>
                 \<not> holds (snd (Unlock r w))"
    and st: "\<And>r t w. repo (keeper s) = Some r \<Longrightarrow> \<not> holds w \<Longrightarrow>
                 \<not> holds (snd (StoreToken r t w))"
    and nw: "\<And>c w. client (keeper s) = Some c \<Longrightarrow> \<not> holds w \<Longrightarrow> \<not> holds (snd (NewToken c w))"
    and rf: "\<And>c t w. client (keeper s) = Some c \<Longrightarrow> \<not> holds w \<Longrightarrow>
                 \<not> holds (snd (RefreshToken c t w))"
    and free: "\<not> holds (world s)"
    and nf: "\<forall>e. Unlock_call (Some e) \<notin> set (new_calls s (snd (Token clock s)))"
  shows "\<not> holds (world (snd (Token clock s)))"
proof (cases "token (keeper s)")
  case (Some t)
  then have "Token clock s = Token_refresh clock s" by (rule Token_after_cached)
  then show ?thesis using Token_refresh_released [of s holds clock, OF st rf free] by simp
next
  case None
  define s1 where "s1 = snd (getToken s)"
  obtain es where es: "calls s1 = calls s @ es"
    using getToken_sound [of s] unfolding s1_def by blast
  obtain es2 where es2: "calls (snd (Token clock s)) = calls s1 @ es2"
    using Token_extends_getToken [OF None, of clock] unfolding s1_def by blast
  have "new_calls s (snd (Token clock s)) = es @ es2" using es es2 by simp
  moreover have "new_calls s s1 = es" using es by simp
  ultimately have nf1: "\<forall>e. Unlock_call (Some e) \<notin> set (new_calls s (snd (getToken s)))"
    using nf by (simp add: s1_def)
  have w1: "\<not> holds (world s1)"
    unfolding s1_def by (rule getToken_released [OF ul st nw free nf1])
  show ?thesis
  proof (cases "fst (getToken s)")
    case Panic
    then have "Token clock s = (Panic, s1)"
      using None by (simp add: Token_def Token_issue_def split_beta s1_def)
    then show ?thesis using w1 by simp
  next
    case (Return p)
    obtain t err where p: "p = (t, err)" by (cases p)
    show ?thesis
    proof (cases t)
      case tNone: None
      then have "snd (Token clock s) = logError err (Error ErrClientNewTokenFailed) s1"
        using None Return p by (simp add: Token_def Token_issue_def split_beta Let_def s1_def)
      then show ?thesis using w1 by simp
    next
      case (Some tk)
      define s2 where "s2 = set_token (Some tk) s1"
      have t: "Token clock s = Token_refresh clock s2"
        using None Return p Some by (simp add: Token_after_adopt s2_def s1_def)
      have k2: "repo (keeper s2) = repo (keeper s)" "client (keeper s2) = client (keeper s)"
        "world s2 = world s1"
        by (simp_all add: s2_def s1_def)
      have "\<not> holds (world (snd (Token_refresh clock s2)))"
      proof (rule Token_refresh_released)
        show "\<not> holds (world s2)" using w1 k2 by simp
      next
        fix r t' w assume "repo (keeper s2) = Some r" "\<not> holds w"
        then show "\<not> holds (snd (StoreToken r t' w))" using st k2 by simp
      next
        fix c t' w assume "client (keeper s2) = Some c" "\<not> holds w"
        then show "\<not> holds (snd (RefreshToken c t' w))" using rf k2 by simp
      qed
      then show ?thesis using t by simp
    qed
  qed
qed

lemmas example_defs = example_def fixedClient_def fixedRepo_def NewTokenKeeper_def WithRepo_def

lemmas keeper_defs = Token_def Token_issue_def Token_refresh_def getToken_def
  getToken_locked_def tokenFromRepo_def tokenFromClient_def storeToken_def set_token_def
  logError_def validateToken_def newInvalidToken_def call_Lock_def call_Unlock_def
  call_GetToken_def call_StoreToken_def call_NewToken_def call_RefreshToken_def new_calls_def

lemmas fake_defs = fakeRepo_def fakeClient_def newFakeToken_def pod_def startup_def Minute_def


section \<open>Runs on the doubles of the tests\<close>





section \<open>Single flight\<close>




section \<open>Panics\<close>

text \<open>
  C2 (what the code does where the claim fails). The claim is that \<^verbatim>\<open>Token()\<close> returns a
  token, without panicking, for every keeper and every answer of the collaborators. A keeper
  without a client, whose Repo holds a token that has expired, does panic: the token is
  adopted, found expired, and \<^verbatim>\<open>RefreshToken\<close> is called on the nil client.
  \<^verbatim>\<open>tokenFromClient\<close> asks whether the client is nil; the refresh block does not.
\<close>

theorem Token_panics_without_client_on_stale_repo_token:
  "fst (Token id stale_repo_no_client) = Panic \<and>
   client (keeper stale_repo_no_client) = None \<and>
   calls (snd (Token id stale_repo_no_client)) =
     [Lock_call None, GetToken_call (Some expired_token) None, Unlock_call None,
      Log_warn (Some expired_token) (Some (New ''token is expired''))]"
  by (simp add: keeper_defs example_defs stale_repo_no_client_def expired_token_def)

section \<open>Locking\<close>

text \<open>
  C7, as stated, fails: \<^verbatim>\<open>Token()\<close> can return while the distributed lock is still held.
  The keeper defers \<^verbatim>\<open>k.repo.Unlock(k.ctx)\<close> and drops what the call returns. Here the
  storage holds the good token, \<^verbatim>\<open>Lock\<close> takes the lock, and \<^verbatim>\<open>Unlock\<close> fails and leaves it
  taken: \<^verbatim>\<open>Token()\<close> returns the token after the calls \<^verbatim>\<open>Lock\<close>, \<^verbatim>\<open>GetToken\<close>, \<^verbatim>\<open>Unlock\<close>; the
  one \<^verbatim>\<open>Lock\<close> has its \<^verbatim>\<open>Unlock\<close>, and the lock is held in the world the call leaves.
\<close>

theorem Unlock_failure_leaves_the_lock_taken:
  "\<not> locked (world stuck_unlock) \<and>
   fst (Token time_Now stuck_unlock) = Return (Some fresh_token) \<and>
   new_calls stuck_unlock (snd (Token time_Now stuck_unlock)) =
     [Lock_call None, GetToken_call (Some fresh_token) None, Unlock_call (Some down)] \<and>
   lock_run False (new_calls stuck_unlock (snd (Token time_Now stuck_unlock))) = Some False \<and>
   locked (world (snd (Token time_Now stuck_unlock)))"
  by (simp add: keeper_defs example_defs stuck_unlock_def stuckRepo_def fresh_token_def
      fake_defs)

text \<open>
  C7, amended. Every call to \<^verbatim>\<open>Repo.Lock\<close> made during \<^verbatim>\<open>Token()\<close> is followed by exactly one
  call to \<^verbatim>\<open>Repo.Unlock\<close> before the next \<^verbatim>\<open>Lock\<close> and before \<^verbatim>\<open>Token()\<close> is left, on every
  way out: a token returned, an invalid token returned, a panic. The keeper does not look
  at what \<^verbatim>\<open>Unlock\<close> returns: the lock, not held at entry, is not held when \<^verbatim>\<open>Token()\<close> is
  left whenever no \<^verbatim>\<open>Unlock\<close> call of the run failed. \<open>holds\<close> is any reading of the world
  for which an \<^verbatim>\<open>Unlock\<close> that returns nil leaves the lock not held, and \<^verbatim>\<open>StoreToken\<close>,
  \<^verbatim>\<open>NewToken\<close> and \<^verbatim>\<open>RefreshToken\<close> do not take it; \<^verbatim>\<open>Lock\<close> and \<^verbatim>\<open>GetToken\<close> may do anything
  to it.
\<close>

theorem Token_gives_the_lock_up_unless_Unlock_fails:
  "calls (snd (Token clock s)) = calls s @ new_calls s (snd (Token clock s)) \<and>
   lock_run False (new_calls s (snd (Token clock s))) = Some False \<and>
   ((\<forall>r w. repo (keeper s) = Some r \<and> fst (Unlock r w) = None \<longrightarrow>
        \<not> holds (snd (Unlock r w))) \<and>
    (\<forall>r t w. repo (keeper s) = Some r \<and> \<not> holds w \<longrightarrow> \<not> holds (snd (StoreToken r t w))) \<and>
    (\<forall>c w. client (keeper s) = Some c \<and> \<not> holds w \<longrightarrow> \<not> holds (snd (NewToken c w))) \<and>
    (\<forall>c t w. client (keeper s) = Some c \<and> \<not> holds w \<longrightarrow>
        \<not> holds (snd (RefreshToken c t w))) \<and>
    \<not> holds (world s) \<and>
    (\<forall>e. Unlock_call (Some e) \<notin> set (new_calls s (snd (Token clock s)))) \<longrightarrow>
    \<not> holds (world (snd (Token clock s))))"
proof -
  obtain es where es: "calls (snd (Token clock s)) = calls s @ es"
      "Token_tr (keeper s) (fst (Token clock s)) es (token (keeper (snd (Token clock s))))"
    using Token_sound by blast
  have "lock_run False es = Some False" using es(2) by (rule Token_tr_lock)
  then have a: "calls (snd (Token clock s)) = calls s @ new_calls s (snd (Token clock s)) \<and>
      lock_run False (new_calls s (snd (Token clock s))) = Some False"
    using es(1) by simp
  have b: "\<not> holds (world (snd (Token clock s)))"
    if h: "\<forall>r w. repo (keeper s) = Some r \<and> fst (Unlock r w) = None \<longrightarrow>
             \<not> holds (snd (Unlock r w))"
      "\<forall>r t w. repo (keeper s) = Some r \<and> \<not> holds w \<longrightarrow> \<not> holds (snd (StoreToken r t w))"
      "\<forall>c w. client (keeper s) = Some c \<and> \<not> holds w \<longrightarrow> \<not> holds (snd (NewToken c w))"
      "\<forall>c t w. client (keeper s) = Some c \<and> \<not> holds w \<longrightarrow> \<not> holds (snd (RefreshToken c t w))"
      "\<not> holds (world s)"
      "\<forall>e. Unlock_call (Some e) \<notin> set (new_calls s (snd (Token clock s)))"
  proof (rule Token_released [of s holds clock])
    show "\<not> holds (world s)" by (rule h(5))
    show "\<forall>e. Unlock_call (Some e) \<notin> set (new_calls s (snd (Token clock s)))" by (rule h(6))
  next
    fix r w assume "repo (keeper s) = Some r" "fst (Unlock r w) = None"
    then show "\<not> holds (snd (Unlock r w))" using h(1) by blast
  next
    fix r t w assume "repo (keeper s) = Some r" "\<not> holds w"
    then show "\<not> holds (snd (StoreToken r t w))" using h(2) by blast
  next
    fix c w assume "client (keeper s) = Some c" "\<not> holds w"
    then show "\<not> holds (snd (NewToken c w))" using h(3) by blast
  next
    fix c t w assume "client (keeper s) = Some c" "\<not> holds w"
    then show "\<not> holds (snd (RefreshToken c t w))" using h(4) by blast
  qed
  show ?thesis using a b by blast
qed

theorem Token_gives_the_lock_up_unless_Unlock_fails_witness:
  "(\<forall>w. fst (Unlock fakeRepo w) = None \<and> \<not> locked (snd (Unlock fakeRepo w))) \<and>
   (\<forall>w. fst (Lock fakeRepo w) = None \<and> locked (snd (Lock fakeRepo w))) \<and>
   (\<forall>t w. locked (snd (StoreToken fakeRepo t w)) = locked w) \<and>
   (\<forall>w. locked (snd (NewToken (fakeClient None) w)) = locked w) \<and>
   (\<forall>t w. locked (snd (RefreshToken (fakeClient None) t w)) = locked w) \<and>
   \<not> locked (world empty_repo_start) \<and>
   new_calls empty_repo_start (snd (Token time_Now empty_repo_start)) =
     [Lock_call None, GetToken_call None (Some (New ''no token'')), Unlock_call None,
      Lock_call None, GetToken_call None (Some (New ''no token'')),
      NewToken_call (Some (newFakeToken startup)) None,
      StoreToken_call (Some (newFakeToken startup)) None, Unlock_call None] \<and>
   lock_run False (new_calls empty_repo_start (snd (Token time_Now empty_repo_start))) =
     Some False \<and>
   \<not> locked (world (snd (Token time_Now empty_repo_start)))"
  using Token_gives_the_lock_up_unless_Unlock_fails [of time_Now empty_repo_start locked]
  by (simp add: keeper_defs example_defs empty_repo_start_def fake_defs)


text \<open>
  C3, as stated, fails: not every call to \<^verbatim>\<open>Repo.StoreToken\<close> is made while the keeper
  holds the lock. The keeper that refreshes its expired token stores the new one without
  any call to \<^verbatim>\<open>Repo.Lock\<close>; the keeper whose \<^verbatim>\<open>Repo.Lock\<close> fails goes on and stores the
  token it was issued.
\<close>

theorem StoreToken_outside_the_lock:
  "new_calls stale_cache (snd (Token id stale_cache)) =
     [Log_warn (Some expired_token) (Some (New ''token is expired'')),
      RefreshToken_call (Some expired_token) (Some fresh_token) None,
      StoreToken_call (Some fresh_token) None] \<and>
   \<not> stores_under acquired False (new_calls stale_cache (snd (Token id stale_cache))) \<and>
   new_calls lock_refused (snd (Token id lock_refused)) =
     [Lock_call (Some down), GetToken_call None (Some no_token), Unlock_call None,
      Lock_call (Some down), GetToken_call None (Some no_token),
      NewToken_call (Some fresh_token) None, StoreToken_call (Some fresh_token) None,
      Unlock_call None] \<and>
   \<not> stores_under acquired False (new_calls lock_refused (snd (Token id lock_refused)))"
  by (simp add: keeper_defs example_defs stale_cache_def lock_refused_def expired_token_def
      fresh_token_def acquired_def)

text \<open>
  C3, amended. Every call to \<^verbatim>\<open>Repo.StoreToken\<close> made by \<^verbatim>\<open>getToken\<close>, that is while a first
  token is issued, comes after a call to \<^verbatim>\<open>Repo.Lock\<close> and before the call to \<^verbatim>\<open>Repo.Unlock\<close>
  that matches it. The keeper does not look at what \<^verbatim>\<open>Lock\<close> returns: the lock is held
  at that write whenever no \<^verbatim>\<open>Lock\<close> call of the run failed.
\<close>

theorem getToken_stores_between_Lock_and_Unlock:
  "stores_under attempted False (new_calls s (snd (getToken s))) \<and>
   ((\<forall>e. Lock_call (Some e) \<notin> set (new_calls s (snd (getToken s)))) \<longrightarrow>
      stores_under acquired False (new_calls s (snd (getToken s))))"
proof -
  obtain es where es: "calls (snd (getToken s)) = calls s @ es"
      "getToken_tr (keeper s) (fst (getToken s)) es (token (keeper (snd (getToken s))))"
    using getToken_sound by blast
  have a: "stores_under attempted False es"
    using es(2) by (rule getToken_tr_stores) (simp add: attempted_def)
  have b: "stores_under acquired False es" if "\<forall>e. Lock_call (Some e) \<notin> set es"
    using es(2)
  proof (rule getToken_tr_stores)
    fix l assume "Lock_call l \<in> set es"
    then show "acquired l" using that by (cases l) (auto simp: acquired_def)
  qed
  show ?thesis using es(1) a b by simp
qed

theorem getToken_stores_between_Lock_and_Unlock_witness:
  "new_calls first_start (snd (getToken first_start)) =
     [Lock_call None, GetToken_call None (Some no_token), Unlock_call None,
      Lock_call None, GetToken_call None (Some no_token),
      NewToken_call (Some fresh_token) None, StoreToken_call (Some fresh_token) None,
      Unlock_call None] \<and>
   stores_under attempted False (new_calls first_start (snd (getToken first_start))) \<and>
   stores_under acquired False (new_calls first_start (snd (getToken first_start)))"
  using getToken_stores_between_Lock_and_Unlock [of first_start]
  by (simp add: keeper_defs example_defs first_start_def fresh_token_def)

section \<open>Tokens taken from the Repo\<close>

text \<open>
  C4, as stated, fails: the keeper adopts a token of the Repo that is not usable, and does
  not call \<^verbatim>\<open>NewToken\<close>. Here the Repo holds the expired token and the refresh fails: the
  expired token is what the keeper has cached when \<^verbatim>\<open>Token()\<close> returns.
\<close>

theorem unusable_repo_token_is_adopted:
  "validateToken 100 (Some expired_token) = Some (New ''token is expired'') \<and>
   token (keeper stale_repo_refresh_down) = None \<and>
   calls (snd (Token id stale_repo_refresh_down)) =
     [Lock_call None, GetToken_call (Some expired_token) None, Unlock_call None,
      Log_warn (Some expired_token) (Some (New ''token is expired'')),
      RefreshToken_call (Some expired_token) None (Some down),
      Log_error (Some down) ''client.RefreshToken failed''] \<and>
   token (keeper (snd (Token id stale_repo_refresh_down))) = Some expired_token"
  by (simp add: keeper_defs example_defs stale_repo_refresh_down_def expired_token_def
      ErrClientRefreshTokenFailed_def)

text \<open>
  C4, amended. When the cache is empty and a call to \<^verbatim>\<open>Repo.GetToken\<close>, on the fast path or
  under the lock, returns a token and no error, \<^verbatim>\<open>getToken\<close> hands that token over, usable
  or not, and \<^verbatim>\<open>Token()\<close> never calls \<^verbatim>\<open>Client.NewToken\<close>. If the token is usable at the
  time it is checked, \<^verbatim>\<open>Token()\<close> returns and caches it; if not, \<^verbatim>\<open>Token()\<close> calls
  \<^verbatim>\<open>Client.RefreshToken\<close> on it (or panics, when the logger or the client is missing).
\<close>

theorem adopts_any_repo_token:
  assumes "token (keeper s) = None"
    and "GetToken_call (Some tk) None \<in> set (new_calls s (snd (getToken s)))"
  shows "fst (getToken s) = Return (Some tk, None) \<and>
         (\<forall>t e. NewToken_call t e \<notin> set (new_calls s (snd (Token clock s)))) \<and>
         (if validateToken (clock (world (snd (getToken s)))) (Some tk) = None
          then fst (Token clock s) = Return (Some tk) \<and>
               token (keeper (snd (Token clock s))) = Some tk
          else if logger (keeper s) \<and> client (keeper s) \<noteq> None
          then \<exists>tok e. RefreshToken_call (Some tk) tok e \<in> set (new_calls s (snd (Token clock s)))
          else fst (Token clock s) = Panic)"
proof -
  define s1 where "s1 = snd (getToken s)"
  define s2 where "s2 = set_token (Some tk) s1"
  obtain es where es: "calls s1 = calls s @ es"
      "getToken_tr (keeper s) (fst (getToken s)) es (token (keeper s1))"
    using getToken_sound unfolding s1_def by blast
  have in_es: "GetToken_call (Some tk) None \<in> set es"
    using assms(2) es(1) by (simp add: s1_def)
  have g: "fst (getToken s) = Return (Some tk, None)"
    and n: "\<forall>t e. NewToken_call t e \<notin> set es"
    using getToken_tr_adopts [OF es(2) in_es] by simp_all
  have t: "Token clock s = Token_refresh clock s2"
    using assms(1) g by (simp add: Token_after_adopt s2_def s1_def)
  have k2: "token (keeper s2) = Some tk" "logger (keeper s2) = logger (keeper s)"
    "client (keeper s2) = client (keeper s)" "world s2 = world s1" "calls s2 = calls s @ es"
    using es(1) by (simp_all add: s2_def s1_def)
  obtain es2 where es2: "calls (snd (Token_refresh clock s2)) = calls s2 @ es2"
      "Token_refresh_tr (keeper s2) (validateToken (clock (world s2)) (token (keeper s2)))
         (fst (Token_refresh clock s2)) es2 (token (keeper (snd (Token_refresh clock s2))))"
    using Token_refresh_sound by blast
  have nc2: "new_calls s (snd (Token_refresh clock s2)) = es @ es2"
    using es2(1) k2 by simp
  then have nc: "new_calls s (snd (Token clock s)) = es @ es2"
    using t by simp
  have "\<forall>t e. NewToken_call t e \<notin> set es2"
    using Token_refresh_tr_events [OF es2(2)] by fastforce
  then have no_new: "\<forall>t e. NewToken_call t e \<notin> set (new_calls s (snd (Token clock s)))"
    using n nc by simp
  have rest: "if validateToken (clock (world s1)) (Some tk) = None
          then fst (Token clock s) = Return (Some tk) \<and>
               token (keeper (snd (Token clock s))) = Some tk
          else if logger (keeper s) \<and> client (keeper s) \<noteq> None
          then \<exists>tok e. RefreshToken_call (Some tk) tok e \<in> set (new_calls s (snd (Token clock s)))
          else fst (Token clock s) = Panic"
    using es2(2) unfolding t nc2 k2
    by (cases rule: Token_refresh_tr.cases) (auto simp: k2)
  show ?thesis using g no_new rest by (simp add: s1_def)
qed

theorem adopts_any_repo_token_witness:
  "token (keeper fresh_repo) = None \<and>
   GetToken_call (Some fresh_token) None \<in> set (new_calls fresh_repo (snd (getToken fresh_repo))) \<and>
   validateToken (id (world (snd (getToken fresh_repo)))) (Some fresh_token) = None \<and>
   fst (Token id fresh_repo) = Return (Some fresh_token) \<and>
   token (keeper stale_repo_refresh_down) = None \<and>
   GetToken_call (Some expired_token) None
     \<in> set (new_calls stale_repo_refresh_down (snd (getToken stale_repo_refresh_down))) \<and>
   validateToken (id (world (snd (getToken stale_repo_refresh_down)))) (Some expired_token) =
     Some (New ''token is expired'') \<and>
   RefreshToken_call (Some expired_token) None (Some down)
     \<in> set (new_calls stale_repo_refresh_down (snd (Token id stale_repo_refresh_down)))"
  using adopts_any_repo_token [of fresh_repo fresh_token id]
    adopts_any_repo_token [of stale_repo_refresh_down expired_token id]
  by (simp add: keeper_defs example_defs stale_repo_refresh_down_def fresh_repo_def
      expired_token_def fresh_token_def)

section \<open>When a token is trusted\<close>

text \<open>
  C5, as stated, fails: a token that expires at the very instant of the check is trusted
  and returned without a refresh.
\<close>

theorem token_expiring_now_is_trusted:
  "world due_cache = 100 \<and> Expires due_token = 100 \<and> Validate due_token = None \<and>
   validateToken 100 (Some due_token) = None \<and>
   Token id due_cache = (Return (Some due_token), due_cache)"
  by (simp add: keeper_defs example_defs due_cache_def due_token_def)

text \<open>
  C5, amended. The keeper trusts a token \<open>t\<close> at the time \<open>now\<close> iff \<^verbatim>\<open>t.Validate()\<close> succeeds
  and the expiry of \<open>t\<close> is not before \<open>now\<close>; a token whose expiry equals the current time
  is trusted. \<^verbatim>\<open>Token()\<close> on a keeper that has \<open>t\<close> cached returns \<open>t\<close> and changes nothing
  iff \<open>t\<close> is trusted, and (logger and client being set) calls \<^verbatim>\<open>RefreshToken\<close> on \<open>t\<close> iff it
  is not.
\<close>

theorem cached_token_trusted_until_its_expiry_has_passed:
  assumes "token (keeper s) = Some t"
  shows "(validateToken (clock (world s)) (Some t) = None) =
           (Validate t = None \<and> clock (world s) \<le> Expires t) \<and>
         (Token clock s = (Return (Some t), s)) =
           (Validate t = None \<and> clock (world s) \<le> Expires t) \<and>
         (logger (keeper s) \<and> client (keeper s) \<noteq> None \<longrightarrow>
           (\<exists>tok e. RefreshToken_call (Some t) tok e \<in> set (new_calls s (snd (Token clock s)))) =
           (\<not> (Validate t = None \<and> clock (world s) \<le> Expires t)))"
  using assms Token_refresh_unchanged_iff [of clock s] Token_refresh_calls_iff [of s clock]
    validateToken_iff [of "clock (world s)" t]
  by (simp add: Token_after_cached)

theorem cached_token_trusted_until_its_expiry_has_passed_witness:
  "token (keeper due_cache) = Some due_token \<and>
   Validate due_token = None \<and> id (world due_cache) \<le> Expires due_token \<and>
   Token id due_cache = (Return (Some due_token), due_cache) \<and>
   token (keeper stale_cache) = Some expired_token \<and>
   logger (keeper stale_cache) \<and> Expires expired_token < id (world stale_cache) \<and>
   RefreshToken_call (Some expired_token) (Some fresh_token) None
     \<in> set (new_calls stale_cache (snd (Token id stale_cache)))"
  using cached_token_trusted_until_its_expiry_has_passed [of due_cache due_token id]
    cached_token_trusted_until_its_expiry_has_passed [of stale_cache expired_token id]
  by (simp add: keeper_defs example_defs stale_cache_def due_cache_def due_token_def
      expired_token_def)

section \<open>Failures of the client\<close>

text \<open>
  C6, as stated, fails: a call that ends in a failure of the client can change the cached
  token. Here the cache is empty, the Repo holds the expired token and the refresh fails
  with \<open>down\<close>: \<^verbatim>\<open>Token()\<close> returns the invalid token for a failed refresh, and the cache
  holds the expired token afterwards.
\<close>

theorem refresh_failure_after_adoption_changes_the_cache:
  "token (keeper stale_repo_refresh_down) = None \<and>
   RefreshToken_call (Some expired_token) None (Some down)
     \<in> set (new_calls stale_repo_refresh_down (snd (Token id stale_repo_refresh_down))) \<and>
   fst (Token id stale_repo_refresh_down) =
     Return (Some (newInvalidToken 100 (Some (Errorf ErrClientRefreshTokenFailed (Some down))))) \<and>
   token (keeper (snd (Token id stale_repo_refresh_down))) = Some expired_token"
  by (simp add: keeper_defs example_defs stale_repo_refresh_down_def expired_token_def)

text \<open>
  C6, amended. When \<^verbatim>\<open>NewToken\<close> or \<^verbatim>\<open>RefreshToken\<close> fails with the error \<open>E\<close>, \<^verbatim>\<open>Token()\<close>
  returns an invalid token: \<^verbatim>\<open>String()\<close> is empty, \<^verbatim>\<open>Expires()\<close> equals \<^verbatim>\<open>Created()\<close>, and the
  error of \<^verbatim>\<open>Validate()\<close> wraps \<^verbatim>\<open>ErrClientNewTokenFailed\<close>, or \<^verbatim>\<open>ErrClientRefreshTokenFailed\<close>,
  its message ending with that of \<open>E\<close>. After a failed \<^verbatim>\<open>NewToken\<close> the cache is empty, as
  it was. After a failed \<^verbatim>\<open>RefreshToken\<close> the cache holds the stale token that was handed to
  \<^verbatim>\<open>RefreshToken\<close>: the token cached at entry if there was one, and otherwise the token
  adopted earlier in the same call.
\<close>

theorem client_failure_is_reported_and_keeps_the_cache:
  "(NewToken_call t (Some E) \<in> set (new_calls s (snd (Token clock s))) \<longrightarrow>
      (\<exists>v err. fst (Token clock s) = Return (Some v) \<and> String v = [] \<and>
         Expires v = Created v \<and> Validate v = Some err \<and> Is err ErrClientNewTokenFailed \<and>
         Error err = Error ErrClientNewTokenFailed @ '': '' @ Error E) \<and>
      token (keeper s) = None \<and> token (keeper (snd (Token clock s))) = None) \<and>
   (RefreshToken_call old tok (Some E) \<in> set (new_calls s (snd (Token clock s))) \<longrightarrow>
      (\<exists>v err. fst (Token clock s) = Return (Some v) \<and> String v = [] \<and>
         Expires v = Created v \<and> Validate v = Some err \<and> Is err ErrClientRefreshTokenFailed \<and>
         Error err = Error ErrClientRefreshTokenFailed @ '': '' @ Error E) \<and>
      old \<noteq> None \<and> token (keeper (snd (Token clock s))) = old \<and>
      (if token (keeper s) = None then True else token (keeper s) = old))"
proof -
  obtain es where es: "calls (snd (Token clock s)) = calls s @ es"
      "Token_tr (keeper s) (fst (Token clock s)) es (token (keeper (snd (Token clock s))))"
    using Token_sound by blast
  have nc: "new_calls s (snd (Token clock s)) = es" using es(1) by simp
  show ?thesis
    unfolding nc
    using Token_tr_issue_failure [OF es(2), of t E] Token_tr_refresh_failure [OF es(2), of old tok E]
      invalid_token_reports
    by (auto; blast)
qed

theorem client_failure_is_reported_and_keeps_the_cache_witness:
  "NewToken_call None (Some down) \<in> set (new_calls client_down (snd (Token id client_down))) \<and>
   fst (Token id client_down) =
     Return (Some (newInvalidToken 100 (Some (Errorf ErrClientNewTokenFailed (Some down))))) \<and>
   token (keeper client_down) = None \<and>
   token (keeper (snd (Token id client_down))) = None \<and>
   RefreshToken_call (Some expired_token) None (Some down)
     \<in> set (new_calls stale_cache_refresh_down (snd (Token id stale_cache_refresh_down))) \<and>
   fst (Token id stale_cache_refresh_down) =
     Return (Some (newInvalidToken 100 (Some (Errorf ErrClientRefreshTokenFailed (Some down))))) \<and>
   token (keeper stale_cache_refresh_down) = Some expired_token \<and>
   token (keeper (snd (Token id stale_cache_refresh_down))) = Some expired_token"
  using client_failure_is_reported_and_keeps_the_cache [of None down client_down id]
    client_failure_is_reported_and_keeps_the_cache
      [of _ _ stale_cache_refresh_down id "Some expired_token" None]
  by (simp add: keeper_defs example_defs stale_cache_refresh_down_def client_down_def
      expired_token_def)

section \<open>Failures of the Repo\<close>

text \<open>
  C8. Whatever errors \<^verbatim>\<open>Repo.Lock\<close>, \<^verbatim>\<open>Repo.GetToken\<close>, \<^verbatim>\<open>Repo.StoreToken\<close> and \<^verbatim>\<open>Repo.Unlock\<close>
  return, what \<^verbatim>\<open>Token()\<close> returns does not carry them: renaming the errors of the Repo
  changes neither the token returned, nor the token cached, nor the world. And when the
  Repo does not supply a token (no call to \<^verbatim>\<open>Repo.GetToken\<close> of the run returns a nil
  error: the Repo is empty, or it fails) the keeper with an empty cache and a client
  calls \<^verbatim>\<open>Client.NewToken\<close>, once, and returns and caches the token it is issued, if that
  token is usable.
\<close>

theorem repo_errors_never_reach_the_caller:
  "fst (Token clock (remap_errors f s)) = fst (Token clock s) \<and>
   token (keeper (snd (Token clock (remap_errors f s)))) = token (keeper (snd (Token clock s))) \<and>
   world (snd (Token clock (remap_errors f s))) = world (snd (Token clock s)) \<and>
   (token (keeper s) = None \<and> client (keeper s) = Some c \<and>
    (\<forall>t. GetToken_call t None \<notin> set (new_calls s (snd (getToken s)))) \<longrightarrow>
      length (filter is_NewToken_call (new_calls s (snd (Token clock s)))) = 1 \<and>
      (\<forall>tk. NewToken_call (Some tk) None \<in> set (new_calls s (snd (getToken s))) \<and>
            validateToken (clock (world (snd (getToken s)))) (Some tk) = None \<longrightarrow>
         fst (Token clock s) = Return (Some tk) \<and>
         token (keeper (snd (Token clock s))) = Some tk))"
proof -
  have a: "fst (Token clock (remap_errors f s)) = fst (Token clock s) \<and>
    token (keeper (snd (Token clock (remap_errors f s)))) = token (keeper (snd (Token clock s))) \<and>
    world (snd (Token clock (remap_errors f s))) = world (snd (Token clock s))"
    using sim_Token [OF sim_remap_errors [of f s], of clock] by (simp add: sim_def)
  have b: "length (filter is_NewToken_call (new_calls s (snd (Token clock s)))) = 1 \<and>
      (\<forall>tk. NewToken_call (Some tk) None \<in> set (new_calls s (snd (getToken s))) \<and>
            validateToken (clock (world (snd (getToken s)))) (Some tk) = None \<longrightarrow>
         fst (Token clock s) = Return (Some tk) \<and>
         token (keeper (snd (Token clock s))) = Some tk)"
    if h: "token (keeper s) = None" "client (keeper s) = Some c"
      "\<forall>t. GetToken_call t None \<notin> set (new_calls s (snd (getToken s)))"
  proof -
    define s1 where "s1 = snd (getToken s)"
    obtain es where es: "calls s1 = calls s @ es"
        "getToken_tr (keeper s) (fst (getToken s)) es (token (keeper s1))"
      using getToken_sound unfolding s1_def by blast
    have nc1: "new_calls s s1 = es" using es(1) by simp
    have miss: "\<forall>t. GetToken_call t None \<notin> set es" using h(3) nc1 by (simp add: s1_def)
    note d = getToken_tr_no_repo_token [OF es(2) h(2) h(1) miss]
    have cnt: "length (filter is_NewToken_call (new_calls s (snd (Token clock s)))) = 1"
    proof -
      obtain es2 where es2: "calls (snd (Token clock s)) = calls s1 @ es2"
        "filter is_NewToken_call es2 = []"
        using Token_extends_getToken [OF h(1), of clock] unfolding s1_def by blast
      then have "new_calls s (snd (Token clock s)) = es @ es2"
        using es(1) by simp
      then show ?thesis using d es2(2) by simp
    qed
    have res: "fst (Token clock s) = Return (Some tk) \<and>
         token (keeper (snd (Token clock s))) = Some tk"
      if n: "NewToken_call (Some tk) None \<in> set (new_calls s (snd (getToken s)))"
        and v: "validateToken (clock (world (snd (getToken s)))) (Some tk) = None" for tk
    proof -
      have "Validate tk = None" using v by (simp add: validateToken_def split: option.splits)
      then have g: "fst (getToken s) = Return (Some tk, None)"
        using d n nc1 by (auto simp: s1_def)
      have t: "Token clock s = Token_refresh clock (set_token (Some tk) s1)"
        using h(1) g by (simp add: Token_after_adopt s1_def)
      show ?thesis
        unfolding t using v by (simp add: Token_refresh_def s1_def)
    qed
    show ?thesis using cnt res by blast
  qed
  show ?thesis using a b by blast
qed

theorem repo_errors_never_reach_the_caller_witness:
  "newFakeToken startup =
     \<lparr>String = ''x'', Created = 0, Expires = 60000000000, Validate = None\<rparr> \<and>
   token (keeper empty_repo_start) = None \<and>
   storage (world empty_repo_start) = None \<and>
   new_calls empty_repo_start (snd (Token time_Now empty_repo_start)) =
     [Lock_call None, GetToken_call None (Some (New ''no token'')), Unlock_call None,
      Lock_call None, GetToken_call None (Some (New ''no token'')),
      NewToken_call (Some (newFakeToken startup)) None,
      StoreToken_call (Some (newFakeToken startup)) None, Unlock_call None] \<and>
   (\<forall>t. GetToken_call t None
          \<notin> set (new_calls empty_repo_start (snd (getToken empty_repo_start)))) \<and>
   length (filter is_NewToken_call
     (new_calls empty_repo_start (snd (Token time_Now empty_repo_start)))) = 1 \<and>
   fst (Token time_Now empty_repo_start) = Return (Some (newFakeToken startup)) \<and>
   token (keeper (snd (Token time_Now empty_repo_start))) = Some (newFakeToken startup) \<and>
   storage (world (snd (Token time_Now empty_repo_start))) = Some (newFakeToken startup) \<and>
   fst (Token time_Now (remap_errors (\<lambda>e. down) empty_repo_start)) =
     Return (Some (newFakeToken startup)) \<and>
   token (keeper repo_down) = None \<and>
   new_calls repo_down (snd (Token id repo_down)) =
     [Lock_call (Some down), GetToken_call None (Some down), Unlock_call (Some down),
      Lock_call (Some down), GetToken_call None (Some down),
      NewToken_call (Some fresh_token) None, StoreToken_call (Some fresh_token) (Some down),
      Log_error (Some down) ''failed to store token in repo'', Unlock_call (Some down)] \<and>
   length (filter is_NewToken_call (new_calls repo_down (snd (Token id repo_down)))) = 1 \<and>
   fst (Token id repo_down) = Return (Some fresh_token) \<and>
   fst (Token id (remap_errors (\<lambda>e. no_token) repo_down)) = Return (Some fresh_token)"
  using repo_errors_never_reach_the_caller
      [of time_Now "\<lambda>e. down" empty_repo_start "fakeClient None"]
    repo_errors_never_reach_the_caller
      [of id "\<lambda>e. no_token" repo_down
          "fixedClient (Some fresh_token, None) (Some fresh_token, None)"]
  by (simp add: keeper_defs example_defs repo_down_def fresh_token_def empty_repo_start_def
      fake_defs)

section \<open>The key of the advisory lock\<close>

text \<open>
  C9 (what the code does where the claim fails). The claim is that all \<^verbatim>\<open>PgRepo\<close>s made by
  \<^verbatim>\<open>NewPgRepo\<close> lock under one fixed number. Each takes the number \<^verbatim>\<open>rand.Intn(100)\<close>
  returns when it is made: two instances for which 81 and 87 are drawn send
  \<^verbatim>\<open>pg_advisory_lock\<close> and \<^verbatim>\<open>pg_advisory_unlock\<close> with different keys, and do not exclude each
  other.
\<close>

theorem NewPgRepo_lock_keys_differ:
  "NewPgRepo (Some ()) 81 = Inr \<lparr>pool = (), table = ''token'', lockNumber = 81\<rparr> \<and>
   NewPgRepo (Some ()) 87 = Inr \<lparr>pool = (), table = ''token'', lockNumber = 87\<rparr> \<and>
   PgRepo_Lock \<lparr>pool = (), table = ''token'', lockNumber = 81\<rparr> =
     Exec ''SELECT pg_advisory_lock($1);'' [81] \<and>
   PgRepo_Lock \<lparr>pool = (), table = ''token'', lockNumber = 87\<rparr> =
     Exec ''SELECT pg_advisory_lock($1);'' [87] \<and>
   PgRepo_Unlock \<lparr>pool = (), table = ''token'', lockNumber = 81\<rparr> =
     Exec ''SELECT pg_advisory_unlock($1);'' [81] \<and>
   PgRepo_Unlock \<lparr>pool = (), table = ''token'', lockNumber = 87\<rparr> =
     Exec ''SELECT pg_advisory_unlock($1);'' [87] \<and>
   PgRepo_Lock \<lparr>pool = (), table = ''token'', lockNumber = 81\<rparr> \<noteq>
     PgRepo_Lock \<lparr>pool = (), table = ''token'', lockNumber = 87\<rparr>"
  by (simp add: NewPgRepo_def PgRepo_Lock_def PgRepo_Unlock_def DefaultTable_def)

section \<open>A fresh token that fails its own check\<close>

text \<open>
  C10, as stated, fails: the token that fails its own validation is written to the Repo
  when \<^verbatim>\<open>RefreshToken\<close> returns it again, since whatever \<^verbatim>\<open>RefreshToken\<close> returns is stored.
\<close>

theorem self_invalid_token_stored_when_refresh_returns_it:
  "Validate revoked_token = Some (New ''revoked'') \<and>
   new_calls echo_start (snd (Token id echo_start)) =
     [Lock_call None, GetToken_call None (Some no_token), Unlock_call None,
      Lock_call None, GetToken_call None (Some no_token),
      NewToken_call (Some revoked_token) None, Unlock_call None,
      Log_warn (Some revoked_token) (Some (New ''revoked'')),
      RefreshToken_call (Some revoked_token) (Some revoked_token) None,
      StoreToken_call (Some revoked_token) None]"
  by (simp add: keeper_defs example_defs echo_start_def revoked_token_def)

text \<open>
  C10, amended. If \<^verbatim>\<open>NewToken\<close> succeeds with a token whose \<^verbatim>\<open>Validate()\<close> reports an error,
  \<^verbatim>\<open>getToken\<close> makes no call to \<^verbatim>\<open>Repo.StoreToken\<close>, the token is adopted as the cached
  token, and the same \<^verbatim>\<open>Token()\<close> call (of a keeper with a logger) goes straight on to
  \<^verbatim>\<open>RefreshToken\<close> on it, with only the warning logged in between. The only token that
  call may write to the Repo afterwards is the one \<^verbatim>\<open>RefreshToken\<close> returned.
\<close>

theorem self_invalid_token_adopted_then_refreshed:
  assumes "token (keeper s) = None"
    and "NewToken_call (Some tk) None \<in> set (new_calls s (snd (getToken s)))"
    and "Validate tk = Some x"
    and "logger (keeper s)"
  shows "(\<forall>t e. StoreToken_call t e \<notin> set (new_calls s (snd (getToken s)))) \<and>
         Token_issue clock s = Inr (set_token (Some tk) (snd (getToken s))) \<and>
         (\<exists>tok e rest.
            new_calls s (snd (Token clock s)) =
              new_calls s (snd (getToken s)) @
              Log_warn (Some tk) (Some x) # RefreshToken_call (Some tk) tok e # rest \<and>
            (\<forall>t e'. StoreToken_call t e' \<in> set rest \<longrightarrow> t = tok))"
proof -
  define s1 where "s1 = snd (getToken s)"
  define s2 where "s2 = set_token (Some tk) s1"
  obtain es where es: "calls s1 = calls s @ es"
      "getToken_tr (keeper s) (fst (getToken s)) es (token (keeper s1))"
    using getToken_sound unfolding s1_def by blast
  have nc1: "new_calls s s1 = es" using es(1) by simp
  have in_es: "NewToken_call (Some tk) None \<in> set es"
    using assms(2) nc1 by (simp add: s1_def)
  have g: "fst (getToken s) = Return (Some tk, None)"
    and n: "\<forall>t e. StoreToken_call t e \<notin> set es"
    and c: "client (keeper s) \<noteq> None"
    using getToken_tr_self_invalid [OF es(2) in_es assms(3)] by simp_all
  have i: "Token_issue clock s = Inr s2"
    using assms(1) g by (simp add: Token_issue_def split_beta s2_def s1_def)
  have t: "Token clock s = Token_refresh clock s2"
    using i by (simp add: Token_def)
  have k2: "token (keeper s2) = Some tk" "logger (keeper s2)" "client (keeper s2) \<noteq> None"
    "calls s2 = calls s @ es"
    using es(1) assms(4) c by (simp_all add: s2_def s1_def)
  have v: "validateToken (clock (world s2)) (token (keeper s2)) = Some x"
    using k2(1) assms(3) by (simp add: validateToken_def)
  obtain es2 where es2: "calls (snd (Token_refresh clock s2)) = calls s2 @ es2"
      "Token_refresh_tr (keeper s2) (Some x)
         (fst (Token_refresh clock s2)) es2 (token (keeper (snd (Token_refresh clock s2))))"
    using Token_refresh_sound [of clock s2] unfolding v by blast
  have nc: "new_calls s (snd (Token clock s)) = es @ es2"
    using es2(1) k2(4) t by simp
  have "\<exists>tok e rest. es2 = Log_warn (Some tk) (Some x) # RefreshToken_call (Some tk) tok e # rest \<and>
          (\<forall>t e'. StoreToken_call t e' \<in> set rest \<longrightarrow> t = tok)"
    using es2(2) k2
    by (cases rule: Token_refresh_tr.cases) (auto dest: storeToken_tr_events)
  then show ?thesis
    using n i nc nc1 by (auto simp: s1_def s2_def)
qed

theorem self_invalid_token_adopted_then_refreshed_witness:
  "token (keeper self_invalid_start) = None \<and>
   NewToken_call (Some revoked_token) None
     \<in> set (new_calls self_invalid_start (snd (getToken self_invalid_start))) \<and>
   Validate revoked_token = Some (New ''revoked'') \<and>
   logger (keeper self_invalid_start) \<and>
   new_calls self_invalid_start (snd (Token id self_invalid_start)) =
     new_calls self_invalid_start (snd (getToken self_invalid_start)) @
     [Log_warn (Some revoked_token) (Some (New ''revoked'')),
      RefreshToken_call (Some revoked_token) (Some fresh_token) None,
      StoreToken_call (Some fresh_token) None]"
  using self_invalid_token_adopted_then_refreshed
    [of self_invalid_start revoked_token "New ''revoked''" id]
  by (simp add: keeper_defs example_defs self_invalid_start_def revoked_token_def)

end
